theory Spec2Isabelle
  imports Main "HOL-Library.AList"
begin

section \<open>JavaScript values\<close>

text \<open>
  The library is TypeScript that runs as JavaScript, and the functions verified
  here inspect their arguments at run time (\<^verbatim>\<open>typeof\<close>, \<^verbatim>\<open>"id" in value\<close>,
  \<^verbatim>\<open>Array.isArray\<close>, \<^verbatim>\<open>String(v)\<close>), so values are modelled with their run-time
  tags.  Numbers are the integer-valued ones (identifiers, counters, status
  codes); a string is a list of code units below 256.  A plain object is the
  list of its own properties in the order in which JavaScript enumerates them:
  property names that are array indices first, ascending, then the other
  names in insertion order.
\<close>

datatype jsval =
    JUndefined
  | JNull
  | JBool bool
  | JNum int
  | JStr string
  | JArr "jsval list"
  | JObj "(string \<times> jsval) list"

type_synonym entity = "(string \<times> jsval) list"

datatype error =
    TypeError string
  | DuplicateResourceError string
  | NotInitializedError string
  | ApiError nat string
  | NetworkError string
  | StoreError string

subsection \<open>Numbers and strings\<close>

definition digit_char :: "nat \<Rightarrow> char" where
  "digit_char d = char_of (48 + d)"

fun nat_to_string :: "nat \<Rightarrow> string" where
  "nat_to_string n =
     (if n < 10 then [digit_char n]
      else nat_to_string (n div 10) @ [digit_char (n mod 10)])"

declare nat_to_string.simps [simp del]

definition int_to_string :: "int \<Rightarrow> string" where
  "int_to_string i =
     (if i < 0 then CHR ''-'' # nat_to_string (nat (- i)) else nat_to_string (nat i))"

definition is_digit :: "char \<Rightarrow> bool" where
  "is_digit c = (48 \<le> (of_char c :: nat) \<and> (of_char c :: nat) \<le> 57)"

definition digits_value :: "string \<Rightarrow> nat" where
  "digits_value s = foldl (\<lambda>n c. 10 * n + ((of_char c :: nat) - 48)) 0 s"

text \<open>
  An array index is a canonical numeric string (digits, no leading zero
  except for \<^verbatim>\<open>"0"\<close> itself) whose value is at most \<open>2^32 - 2\<close>.
\<close>

definition array_index :: "string \<Rightarrow> nat option" where
  "array_index s =
     (if s \<noteq> [] \<and> list_all is_digit s \<and> (s = ''0'' \<or> hd s \<noteq> CHR ''0'')
         \<and> digits_value s \<le> 4294967294
      then Some (digits_value s) else None)"

fun join :: "string \<Rightarrow> string list \<Rightarrow> string" where
  "join sep [] = []"
| "join sep [x] = x"
| "join sep (x # y # ys) = x @ sep @ join sep (y # ys)"

subsection \<open>Property access\<close>

text \<open>
  \<^verbatim>\<open>o[k] = v\<close> on a plain object: an existing property keeps its place, a new
  array-index name goes to its numeric position among the index names, any
  other new name goes to the end.
\<close>

fun insert_index :: "nat \<Rightarrow> string \<Rightarrow> 'a \<Rightarrow> (string \<times> 'a) list \<Rightarrow> (string \<times> 'a) list" where
  "insert_index i k v [] = [(k, v)]"
| "insert_index i k v ((k', v') # ps) =
     (case array_index k' of
        None \<Rightarrow> (k, v) # (k', v') # ps
      | Some j \<Rightarrow> if i < j then (k, v) # (k', v') # ps
                  else (k', v') # insert_index i k v ps)"

definition obj_set :: "(string \<times> 'a) list \<Rightarrow> string \<Rightarrow> 'a \<Rightarrow> (string \<times> 'a) list" where
  "obj_set ps k v =
     (if k \<in> fst ` set ps then map (\<lambda>(k', v'). if k' = k then (k', v) else (k', v')) ps
      else case array_index k of
             None \<Rightarrow> ps @ [(k, v)]
           | Some i \<Rightarrow> insert_index i k v ps)"

text \<open>\<^verbatim>\<open>o[k]\<close> on an object: the property's value, or \<^verbatim>\<open>undefined\<close>.\<close>

definition obj_get :: "entity \<Rightarrow> string \<Rightarrow> jsval" where
  "obj_get ps k = (case map_of ps k of None \<Rightarrow> JUndefined | Some v \<Rightarrow> v)"

text \<open>
  \<^verbatim>\<open>v[k]\<close> on a value that is neither \<^verbatim>\<open>null\<close> nor \<^verbatim>\<open>undefined\<close>: an
  array answers its elements and its length; the other primitives have none
  of the properties read here.
\<close>

definition js_prop :: "jsval \<Rightarrow> string \<Rightarrow> jsval" where
  "js_prop v k =
     (case v of
        JObj ps \<Rightarrow> obj_get ps k
      | JArr xs \<Rightarrow>
          (case array_index k of
             Some i \<Rightarrow> if i < length xs then xs ! i else JUndefined
           | None \<Rightarrow> if k = ''length'' then JNum (int (length xs)) else JUndefined)
      | _ \<Rightarrow> JUndefined)"

text \<open>\<^verbatim>\<open>v[k]\<close> on any value: reading a property of \<^verbatim>\<open>null\<close> or \<^verbatim>\<open>undefined\<close> throws.\<close>

definition js_get :: "jsval \<Rightarrow> string \<Rightarrow> error + jsval" where
  "js_get v k =
     (if v = JUndefined then Inl (TypeError ''Cannot read properties of undefined'')
      else if v = JNull then Inl (TypeError ''Cannot read properties of null'')
      else Inr (js_prop v k))"

text \<open>Truthiness, as \<^verbatim>\<open>value && ...\<close> tests it.\<close>

definition truthy :: "jsval \<Rightarrow> bool" where
  "truthy v =
     (case v of
        JUndefined \<Rightarrow> False
      | JNull \<Rightarrow> False
      | JBool b \<Rightarrow> b
      | JNum n \<Rightarrow> n \<noteq> 0
      | JStr s \<Rightarrow> s \<noteq> []
      | _ \<Rightarrow> True)"

text \<open>\<^verbatim>\<open>typeof v === "object"\<close>: true of objects, arrays and \<^verbatim>\<open>null\<close>.\<close>

definition typeof_object :: "jsval \<Rightarrow> bool" where
  "typeof_object v = (case v of JNull \<Rightarrow> True | JArr _ \<Rightarrow> True | JObj _ \<Rightarrow> True | _ \<Rightarrow> False)"

text \<open>\<^verbatim>\<open>"id" in v\<close> for a value that is an object or an array.\<close>

definition has_id :: "jsval \<Rightarrow> bool" where
  "has_id v = (case v of JObj ps \<Rightarrow> ''id'' \<in> fst ` set ps | _ \<Rightarrow> False)"

subsection \<open>String coercion and JSON text\<close>

text \<open>\<^verbatim>\<open>String(v)\<close>, which is also what a template literal does.\<close>

fun js_string :: "jsval \<Rightarrow> string" where
  "js_string JUndefined = ''undefined''"
| "js_string JNull = ''null''"
| "js_string (JBool b) = (if b then ''true'' else ''false'')"
| "js_string (JNum n) = int_to_string n"
| "js_string (JStr s) = s"
| "js_string (JArr xs) =
     join '','' (map (\<lambda>x. if x = JUndefined \<or> x = JNull then [] else js_string x) xs)"
| "js_string (JObj ps) = ''[object Object]''"

text \<open>\<^verbatim>\<open>xs.join(sep)\<close>: \<^verbatim>\<open>null\<close> and \<^verbatim>\<open>undefined\<close> elements become empty.\<close>

definition array_join :: "string \<Rightarrow> jsval list \<Rightarrow> string" where
  "array_join sep xs =
     join sep (map (\<lambda>x. if x = JUndefined \<or> x = JNull then [] else js_string x) xs)"

definition hex_char :: "nat \<Rightarrow> char" where
  "hex_char d = (if d < 10 then char_of (48 + d) else char_of (87 + d))"

definition quote_char :: "char \<Rightarrow> string" where
  "quote_char c =
     (let n = (of_char c :: nat) in
      if n = 34 then [CHR 0x5C, CHR 0x22]
      else if n = 92 then [CHR 0x5C, CHR 0x5C]
      else if n = 8 then [CHR 0x5C, CHR ''b'']
      else if n = 9 then [CHR 0x5C, CHR ''t'']
      else if n = 10 then [CHR 0x5C, CHR ''n'']
      else if n = 12 then [CHR 0x5C, CHR ''f'']
      else if n = 13 then [CHR 0x5C, CHR ''r'']
      else if n < 32 then [CHR 0x5C, CHR ''u'', CHR ''0'', CHR ''0'', hex_char (n div 16), hex_char (n mod 16)]
      else [c])"

definition quote :: "string \<Rightarrow> string" where
  "quote s = [CHR 0x22] @ concat (map quote_char s) @ [CHR 0x22]"

text \<open>
  \<^verbatim>\<open>JSON.stringify(v)\<close>; \<open>None\<close> is the result \<^verbatim>\<open>undefined\<close>.  A property whose
  value is \<^verbatim>\<open>undefined\<close> is left out of an object, and an \<^verbatim>\<open>undefined\<close>
  element of an array is written \<^verbatim>\<open>null\<close>.
\<close>

definition json_member :: "string \<Rightarrow> string option \<Rightarrow> string list" where
  "json_member k t = (case t of None \<Rightarrow> [] | Some s \<Rightarrow> [quote k @ '':'' @ s])"

fun json_stringify :: "jsval \<Rightarrow> string option" where
  "json_stringify JUndefined = None"
| "json_stringify JNull = Some ''null''"
| "json_stringify (JBool b) = Some (if b then ''true'' else ''false'')"
| "json_stringify (JNum n) = Some (int_to_string n)"
| "json_stringify (JStr s) = Some (quote s)"
| "json_stringify (JArr xs) =
     Some (''['' @ join '','' (map (\<lambda>x. case json_stringify x of None \<Rightarrow> ''null'' | Some s \<Rightarrow> s) xs) @ '']'')"
| "json_stringify (JObj ps) =
     Some (''{'' @ join '','' (concat (map (\<lambda>(k, v). json_member k (json_stringify v)) ps)) @ ''}'')"

section \<open>Key and identity utilities (id-utils.ts)\<close>

text \<open>
  \<^verbatim>\<open>keyFields?: string[]\<close> is an optional list; the source tests
  \<^verbatim>\<open>keyFields && keyFields.length > 0\<close> everywhere.
\<close>

definition has_fields :: "string list option \<Rightarrow> bool" where
  "has_fields keyFields = (case keyFields of None \<Rightarrow> False | Some fs \<Rightarrow> fs \<noteq> [])"

definition fields_of :: "string list option \<Rightarrow> string list" where
  "fields_of keyFields = (case keyFields of None \<Rightarrow> [] | Some fs \<Rightarrow> fs)"

definition extractPrimitiveValue :: "jsval \<Rightarrow> jsval" where
  "extractPrimitiveValue v =
     (if truthy v \<and> typeof_object v \<and> has_id v then js_prop v ''id'' else v)"

definition getEntityId :: "entity \<Rightarrow> string list option \<Rightarrow> jsval" where
  "getEntityId e keyFields =
     (if has_fields keyFields
      then JObj (foldl (\<lambda>idObj field. obj_set idObj field (extractPrimitiveValue (obj_get e field)))
                   [] (fields_of keyFields))
      else obj_get e ''id'')"

text \<open>
  \<^verbatim>\<open>serializeId\<close> answers the JSON text of the normalized object for an object
  identifier and the identifier itself otherwise.
\<close>

definition json_result :: "jsval \<Rightarrow> jsval" where
  "json_result v = (case json_stringify v of None \<Rightarrow> JUndefined | Some s \<Rightarrow> JStr s)"

definition serializeId :: "jsval \<Rightarrow> string list option \<Rightarrow> jsval" where
  "serializeId ident keyFields =
     (if typeof_object ident \<and> ident \<noteq> JNull then
        (if has_fields keyFields
         then json_result
                (JObj (foldl (\<lambda>normalized field.
                                obj_set normalized field (extractPrimitiveValue (js_prop ident field)))
                         [] (fields_of keyFields)))
         else json_result ident)
      else ident)"

definition buildDexieKey :: "jsval \<Rightarrow> string list option \<Rightarrow> jsval" where
  "buildDexieKey ident keyFields =
     (if has_fields keyFields \<and> typeof_object ident \<and> ident \<noteq> JNull
      then JArr (map (\<lambda>field. extractPrimitiveValue (js_prop ident field)) (fields_of keyFields))
      else ident)"

section \<open>Entity normalizer (entity-normalizer.ts)\<close>

text \<open>
  On values: the entity read as the list of its properties.  The copy
  \<^verbatim>\<open>{ ...entity }\<close> has the entity's properties in the entity's order; the loop
  reads from \<^verbatim>\<open>entity\<close> and writes to the copy.
\<close>

definition normalize :: "string list option \<Rightarrow> entity \<Rightarrow> entity" where
  "normalize keyFields e =
     (if \<not> has_fields keyFields then e
      else foldl (\<lambda>normalized field.
                    let v = obj_get e field in
                    if truthy v \<and> typeof_object v \<and> has_id v
                    then obj_set normalized field (js_prop v ''id'')
                    else normalized)
             e (fields_of keyFields))"

definition normalizeMany :: "string list option \<Rightarrow> entity list \<Rightarrow> entity list" where
  "normalizeMany keyFields es = map (normalize keyFields) es"

subsection \<open>The normalizer on a heap\<close>

text \<open>
  Whether \<^verbatim>\<open>normalize\<close> mutates its argument and what its result shares with
  it cannot be read off values, so the same method is also modelled on a heap.
  An object is a cell, a field holds a primitive or the address of a cell, an
  address is an index into the list of cells, and allocation appends a cell.
\<close>

datatype hval = HUndefined | HNull | HBool bool | HNum int | HStr string | HRef nat

datatype hobj = HObject "(string \<times> hval) list" | HArray "hval list"

type_synonym heap = "hobj list"

definition hobj_get :: "(string \<times> hval) list \<Rightarrow> string \<Rightarrow> hval" where
  "hobj_get ps k = (case map_of ps k of None \<Rightarrow> HUndefined | Some v \<Rightarrow> v)"

text \<open>\<^verbatim>\<open>value && typeof value === "object" && "id" in value\<close> on the heap.\<close>

definition heap_has_id :: "heap \<Rightarrow> hval \<Rightarrow> bool" where
  "heap_has_id h v =
     (case v of
        HRef r \<Rightarrow> r < length h \<and> (case h ! r of HObject qs \<Rightarrow> ''id'' \<in> fst ` set qs | HArray _ \<Rightarrow> False)
      | _ \<Rightarrow> False)"

text \<open>\<^verbatim>\<open>value.id\<close> for such a value.\<close>

definition heap_id :: "heap \<Rightarrow> hval \<Rightarrow> hval" where
  "heap_id h v =
     (case v of
        HRef r \<Rightarrow> (if r < length h then (case h ! r of HObject qs \<Rightarrow> hobj_get qs ''id'' | HArray _ \<Rightarrow> HUndefined)
                   else HUndefined)
      | _ \<Rightarrow> HUndefined)"

text \<open>\<^verbatim>\<open>(entity)[field]\<close> and \<^verbatim>\<open>(normalized)[field] = v\<close> through an address.\<close>

definition heap_read :: "heap \<Rightarrow> nat \<Rightarrow> string \<Rightarrow> hval" where
  "heap_read h a k =
     (if a < length h then (case h ! a of HObject ps \<Rightarrow> hobj_get ps k | HArray _ \<Rightarrow> HUndefined)
      else HUndefined)"

definition heap_write :: "heap \<Rightarrow> nat \<Rightarrow> string \<Rightarrow> hval \<Rightarrow> heap" where
  "heap_write h a k v =
     (if a < length h then (case h ! a of HObject ps \<Rightarrow> h[a := HObject (obj_set ps k v)] | HArray _ \<Rightarrow> h)
      else h)"

definition normalize_step :: "nat \<Rightarrow> nat \<Rightarrow> heap \<Rightarrow> string \<Rightarrow> heap" where
  "normalize_step e n h field =
     (let v = heap_read h e field in
      if heap_has_id h v then heap_write h n field (heap_id h v) else h)"

text \<open>
  The result is the new heap and the address returned; \<open>None\<close> when the
  argument is not the address of a plain object.
\<close>

definition normalize_heap :: "string list option \<Rightarrow> heap \<Rightarrow> nat \<Rightarrow> (heap \<times> nat) option" where
  "normalize_heap keyFields h e =
     (if \<not> has_fields keyFields then Some (h, e)
      else if e < length h then
        (case h ! e of
           HObject ps \<Rightarrow>
             (let n = length h; h1 = h @ [HObject ps]
              in Some (foldl (normalize_step e n) h1 (fields_of keyFields), n))
         | HArray _ \<Rightarrow> None)
      else None)"

text \<open>
  A heap is closed when every address stored in a cell is the address of a
  cell: there are no dangling references.
\<close>

definition cell_values :: "hobj \<Rightarrow> hval list" where
  "cell_values c = (case c of HObject ps \<Rightarrow> map snd ps | HArray xs \<Rightarrow> xs)"

definition heap_closed :: "heap \<Rightarrow> bool" where
  "heap_closed h =
     list_all (\<lambda>c. list_all (\<lambda>v. case v of HRef r \<Rightarrow> r < length h | _ \<Rightarrow> True) (cell_values c)) h"

text \<open>
  A heap with one tag: cell 0 is the tag, whose key field \<^verbatim>\<open>space\<close> and
  non-key field \<^verbatim>\<open>owner\<close> hold references to cells 1 and 2.
\<close>

definition tag_heap :: heap where
  "tag_heap =
     [HObject [(''space'', HRef 1), (''name'', HStr ''urgent''), (''owner'', HRef 2)],
      HObject [(''id'', HStr ''s1''), (''name'', HStr ''Work'')],
      HObject [(''id'', HStr ''u1'')]]"

section \<open>URL builder (url-builder.ts)\<close>

definition buildIdUrl :: "string \<Rightarrow> string list option \<Rightarrow> jsval \<Rightarrow> error + string" where
  "buildIdUrl baseUrl keyFields ident =
     (if has_fields keyFields \<and> typeof_object ident then
        (if ident = JNull then Inl (TypeError ''Cannot read properties of null'')
         else Inr (baseUrl @ ''/'' @
                   array_join ''/'' (map (\<lambda>field. extractPrimitiveValue (js_prop ident field))
                                      (fields_of keyFields))))
      else Inr (baseUrl @ ''/'' @ js_string ident))"

section \<open>Filter matcher (filter-matcher.ts)\<close>

text \<open>
  A list parameter has the type
  \<^verbatim>\<open>string | number | boolean | string[] | undefined\<close>; the source also tests
  it against \<^verbatim>\<open>null\<close>.  The parameter set is the list of its entries in the
  order of \<^verbatim>\<open>Object.entries\<close>.
\<close>

datatype param = PUndefined | PNull | PStr string | PNum int | PBool bool | PArr "string list"

definition param_string :: "param \<Rightarrow> string" where
  "param_string p =
     (case p of
        PUndefined \<Rightarrow> ''undefined''
      | PNull \<Rightarrow> ''null''
      | PStr s \<Rightarrow> s
      | PNum n \<Rightarrow> int_to_string n
      | PBool b \<Rightarrow> (if b then ''true'' else ''false'')
      | PArr xs \<Rightarrow> join '','' xs)"

definition SPECIAL_PARAMS :: "string set" where
  "SPECIAL_PARAMS = {''sort'', ''fields''}"

definition is_array :: "param \<Rightarrow> bool" where
  "is_array p = (case p of PArr _ \<Rightarrow> True | _ \<Rightarrow> False)"

text \<open>
  \<^verbatim>\<open>expectedValue.includes(actualValue)\<close> on an array of strings: strict
  equality with one of the elements, so only a string can be a member.
\<close>

definition array_includes :: "param \<Rightarrow> jsval \<Rightarrow> bool" where
  "array_includes p v = (case p of PArr xs \<Rightarrow> v \<in> set (map JStr xs) | _ \<Rightarrow> False)"

text \<open>
  The loop of \<^verbatim>\<open>matchesFilter\<close> over the entries; \<open>Inl\<close> is the exception
  that leaves the function.
\<close>

fun matchesFilter :: "entity \<Rightarrow> (string \<times> param) list \<Rightarrow> error + bool" where
  "matchesFilter e [] = Inr True"
| "matchesFilter e ((key, expectedValue) # rest) =
     (if expectedValue = PUndefined \<or> key \<in> SPECIAL_PARAMS then matchesFilter e rest
      else
        let actualValue = obj_get e key in
        if is_array expectedValue then
          (if \<not> array_includes expectedValue actualValue then Inr False else matchesFilter e rest)
        else if typeof_object actualValue \<and> expectedValue \<noteq> PNull then
          (case js_get actualValue ''id'' of
             Inl err \<Rightarrow> Inl err
           | Inr i \<Rightarrow> if js_string i \<noteq> param_string expectedValue then Inr False
                      else matchesFilter e rest)
        else
          (if js_string actualValue \<noteq> param_string expectedValue then Inr False
           else matchesFilter e rest))"

section \<open>Table registry (table-registry.ts)\<close>

text \<open>
  The registry owns a Dexie database, which is not part of the library.  Of
  the database the registry uses \<^verbatim>\<open>isOpen()\<close>, \<^verbatim>\<open>close()\<close>, \<^verbatim>\<open>verno\<close>,
  \<^verbatim>\<open>version(n).stores(schema)\<close> and \<^verbatim>\<open>open()\<close>; the model keeps the three
  observations and records every call in order.  \<^verbatim>\<open>open()\<close> is the one call
  that can fail, and whether it does is an input of the model.
\<close>

record dexie =
  isOpen :: bool
  verno :: nat
  schema :: "(string \<times> string) list"

datatype db_call = DbClose | DbVersionStores nat "(string \<times> string) list" | DbOpen

record table_config =
  config_keyFields :: "string list option"
  config_baseUrl :: string

text \<open>
  \<^verbatim>\<open>pendingTables\<close> is a \<^verbatim>\<open>Map\<close> and \<^verbatim>\<open>registeredTables\<close> a \<^verbatim>\<open>Set\<close>, both
  in insertion order.  \<^verbatim>\<open>registrationQueue\<close> is a promise that is settled
  whenever no call is running: \<open>None\<close> when fulfilled, the error when
  rejected.
\<close>

record table_registry =
  db :: dexie
  db_calls :: "db_call list"
  registeredTables :: "string list"
  registrationQueue :: "error option"
  pendingTables :: "(string \<times> table_config) list"

definition set_add :: "string list \<Rightarrow> string \<Rightarrow> string list" where
  "set_add xs x = (if x \<in> set xs then xs else xs @ [x])"

definition registerTable ::
  "string \<Rightarrow> string list option \<Rightarrow> string option \<Rightarrow> table_registry \<Rightarrow> (error + unit) \<times> table_registry" where
  "registerTable name keyFields baseUrl r =
     (if name \<in> fst ` set (pendingTables r) \<or> name \<in> set (registeredTables r)
      then (Inl (DuplicateResourceError name), r)
      else (Inr (),
            r\<lparr>pendingTables :=
                 AList.update name
                   \<lparr>config_keyFields = keyFields,
                    config_baseUrl = (case baseUrl of None \<Rightarrow> [] | Some u \<Rightarrow> u)\<rparr>
                   (pendingTables r)\<rparr>))"

definition hasTable :: "table_registry \<Rightarrow> string \<Rightarrow> bool" where
  "hasTable r name = (name \<in> fst ` set (pendingTables r) \<or> name \<in> set (registeredTables r))"

definition keySpec :: "string list option \<Rightarrow> string" where
  "keySpec keyFields =
     (if has_fields keyFields then ''['' @ join ''+'' (fields_of keyFields) @ '']'' else ''id'')"

definition db_close :: "table_registry \<Rightarrow> table_registry" where
  "db_close r = r\<lparr>db := (db r)\<lparr>isOpen := False\<rparr>, db_calls := db_calls r @ [DbClose]\<rparr>"

definition db_version_stores :: "nat \<Rightarrow> (string \<times> string) list \<Rightarrow> table_registry \<Rightarrow> table_registry" where
  "db_version_stores n stores r =
     r\<lparr>db := (db r)\<lparr>verno := max (verno (db r)) n,
                     schema := foldl (\<lambda>acc (k, v). obj_set acc k v) (schema (db r)) stores\<rparr>,
       db_calls := db_calls r @ [DbVersionStores n stores]\<rparr>"

text \<open>
  The body queued by \<^verbatim>\<open>createTables\<close>.  The loop that fills \<^verbatim>\<open>stores\<close> also
  adds each name to \<^verbatim>\<open>registeredTables\<close>, before the version is declared and
  before the database is reopened.
\<close>

definition createTables ::
  "(string \<times> string list option) list \<Rightarrow> error option \<Rightarrow> table_registry
     \<Rightarrow> (error + unit) \<times> table_registry" where
  "createTables tables open_result r =
     (if tables = [] then (Inr (), r)
      else case registrationQueue r of
        Some err \<Rightarrow> (Inl err, r)
      | None \<Rightarrow>
          (let newTables = filter (\<lambda>(name, keyFields). name \<notin> set (registeredTables r)) tables in
           if newTables = [] then (Inr (), r)
           else
             let r1 = (if isOpen (db r) then db_close r else r);
                 stores = foldl (\<lambda>acc (name, keyFields). obj_set acc name (keySpec keyFields)) [] newTables;
                 r2 = r1\<lparr>registeredTables := foldl set_add (registeredTables r1) (map fst newTables)\<rparr>;
                 currentVersion = verno (db r2);
                 r3 = db_version_stores (currentVersion + 1) stores r2;
                 r4 = r3\<lparr>db_calls := db_calls r3 @ [DbOpen]\<rparr>
             in case open_result of
                  None \<Rightarrow> (Inr (), r4\<lparr>db := (db r4)\<lparr>isOpen := True\<rparr>\<rparr>)
                | Some err \<Rightarrow> (Inl err, r4\<lparr>registrationQueue := Some err\<rparr>)))"

text \<open>
  \<^verbatim>\<open>initializeAll\<close> is an async function and hands control back twice before
  it clears the pending map: the body queued by \<^verbatim>\<open>createTables\<close> runs only
  after the code that follows the call, and that body awaits \<^verbatim>\<open>db.open()\<close>.
  Other code can register tables at both points.  The snapshot
  \<^verbatim>\<open>tablesToRegister\<close> is taken before the first of them and
  \<^verbatim>\<open>pendingTables.clear()\<close> runs after the second, on the map as it is then.
  A registration that throws changes nothing and its error goes to its own
  caller.  The queued body reads and writes nothing that \<^verbatim>\<open>registerTable\<close>
  writes, so a registration made while the database opens has the effect of
  one made right after the body.
\<close>

datatype registration = Registration string "string list option" "string option"

fun registrations :: "registration list \<Rightarrow> table_registry \<Rightarrow> table_registry" where
  "registrations [] r = r"
| "registrations (Registration name keyFields baseUrl # rest) r =
     registrations rest (snd (registerTable name keyFields baseUrl r))"

text \<open>
  A call of \<^verbatim>\<open>initializeAll\<close> with the registrations \<open>early\<close> made after the
  snapshot and before the queued body, and the registrations \<open>late\<close> made
  after the body has started and before the pending map is cleared.
\<close>

definition initializeAll_during ::
  "registration list \<Rightarrow> registration list \<Rightarrow> error option \<Rightarrow> table_registry
     \<Rightarrow> (error + unit) \<times> table_registry" where
  "initializeAll_during early late open_result r =
     (if pendingTables r = [] then (Inr (), r)
      else
        let tablesToRegister = map (\<lambda>(name, c). (name, config_keyFields c)) (pendingTables r);
            r1 = registrations early r;
            (created, r2) = createTables tablesToRegister open_result r1;
            r3 = registrations late r2
        in case created of
             Inl err \<Rightarrow> (Inl err, r3)
           | Inr u \<Rightarrow> (Inr (), r3\<lparr>pendingTables := []\<rparr>))"

text \<open>A call during which nothing else runs.\<close>

definition initializeAll :: "error option \<Rightarrow> table_registry \<Rightarrow> (error + unit) \<times> table_registry" where
  "initializeAll open_result r = initializeAll_during [] [] open_result r"

definition getTable :: "table_registry \<Rightarrow> string \<Rightarrow> 't \<Rightarrow> 't option" where
  "getTable r name tbl = (if name \<notin> set (registeredTables r) then None else Some tbl)"

definition new_registry :: table_registry where
  "new_registry =
     \<lparr>db = \<lparr>isOpen = False, verno = 1, schema = []\<rparr>, db_calls = [],
      registeredTables = [], registrationQueue = None, pendingTables = []\<rparr>"

text \<open>A registry with \<^verbatim>\<open>"users"\<close> pending, and a registration of \<^verbatim>\<open>"posts"\<close>.\<close>

definition registry_users :: table_registry where
  "registry_users = snd (registerTable ''users'' None (Some ''/api/users'') new_registry)"

definition register_posts :: registration where
  "register_posts = Registration ''posts'' None (Some ''/api/posts'')"

text \<open>
  Two registries to run the operations on: one with \<^verbatim>\<open>"users"\<close> and the
  composite-key resource \<^verbatim>\<open>"tags"\<close> pending, and the same after a successful
  \<^verbatim>\<open>initializeAll\<close>.
\<close>

definition registry_pending :: table_registry where
  "registry_pending =
     snd (registerTable ''tags'' (Some [''spaceId'', ''tagName'']) (Some ''/tags'')
            (snd (registerTable ''users'' None (Some ''/api/users'') new_registry)))"

definition registry_ready :: table_registry where
  "registry_ready = snd (initializeAll None registry_pending)"

section \<open>Operations factory (operations-factory.ts)\<close>

text \<open>
  The operations work on injected collaborators.  The table is any
  implementation of the three store operations used here, over a store state
  \<open>'s\<close>; each of them can fail.  The HTTP transport answers a request with the
  \<^verbatim>\<open>data\<close> of the response or with the error it throws.  The world threads
  the store, the calls made to the store and to the network in the order in
  which they were made, and the lines written by \<^verbatim>\<open>console.error\<close>.
\<close>

record 's table =
  table_get :: "jsval \<Rightarrow> 's \<Rightarrow> error + entity option"
  table_put :: "entity \<Rightarrow> 's \<Rightarrow> error + 's"
  table_delete :: "jsval \<Rightarrow> 's \<Rightarrow> error + 's"

datatype call =
    TableGet jsval
  | TablePut entity
  | TableDelete jsval
  | ApiRequest string string

record 's world =
  store :: 's
  calls :: "call list"
  console :: "(string \<times> error) list"

record 's operations_config =
  resource_name :: string
  resource_baseUrl :: string
  resource_keyFields :: "string list option"
  table_accessor :: "error + 's table"
  api_get :: "string \<Rightarrow> error + entity"
  api_delete :: "string \<Rightarrow> error + unit"

definition called :: "call \<Rightarrow> 's world \<Rightarrow> 's world" where
  "called c w = w\<lparr>calls := calls w @ [c]\<rparr>"

definition console_error :: "string \<Rightarrow> error \<Rightarrow> 's world \<Rightarrow> 's world" where
  "console_error msg err w = w\<lparr>console := console w @ [(msg, err)]\<rparr>"

text \<open>\<^verbatim>\<open>err instanceof ApiError && err.status === 404\<close>\<close>

definition isNotFound :: "error \<Rightarrow> bool" where
  "isNotFound err = (case err of ApiError status text \<Rightarrow> status = 404 | _ \<Rightarrow> False)"

text \<open>
  The promise \<^verbatim>\<open>networkPromise\<close> of \<^verbatim>\<open>getById\<close>, run to its end: the request,
  then either the \<^verbatim>\<open>then\<close> handler (normalize, put, answer the data) or the
  \<^verbatim>\<open>catch\<close> handler, which also catches a failure of the put.  It never
  rejects; \<open>None\<close> is \<^verbatim>\<open>null\<close>.
\<close>

definition fetch_by_id ::
  "'s operations_config \<Rightarrow> 's table \<Rightarrow> string \<Rightarrow> 's world \<Rightarrow> entity option \<times> 's world" where
  "fetch_by_id cfg tbl url w =
     (let w1 = called (ApiRequest ''GET'' url) w;
          failed = (\<lambda>err w'. if \<not> isNotFound err
                              then console_error (''[Query] Failed to fetch '' @ resource_name cfg @ '' by ID: '') err w'
                              else w')
      in case api_get cfg url of
           Inl err \<Rightarrow> (None, failed err w1)
         | Inr data \<Rightarrow>
             (let stored = normalize (resource_keyFields cfg) data;
                  w2 = called (TablePut stored) w1
              in case table_put tbl stored (store w2) of
                   Inl err \<Rightarrow> (None, failed err w2)
                 | Inr s' \<Rightarrow> (Some data, w2\<lparr>store := s'\<rparr>)))"

definition getById ::
  "'s operations_config \<Rightarrow> jsval \<Rightarrow> 's world \<Rightarrow> (error + entity option) \<times> 's world" where
  "getById cfg ident w =
     (case table_accessor cfg of
        Inl err \<Rightarrow> (Inl err, w)
      | Inr tbl \<Rightarrow>
          (let w1 = called (TableGet ident) w in
           case table_get tbl ident (store w1) of
             Inl err \<Rightarrow> (Inl err, w1)
           | Inr cached \<Rightarrow>
               (case buildIdUrl (resource_baseUrl cfg) (resource_keyFields cfg) ident of
                  Inl err \<Rightarrow> (Inl err, w1)
                | Inr url \<Rightarrow>
                    (let (fresh, w2) = fetch_by_id cfg tbl url w1
                     in (Inr (case cached of Some c \<Rightarrow> Some c | None \<Rightarrow> fresh), w2)))))"

definition remove ::
  "'s operations_config \<Rightarrow> jsval \<Rightarrow> 's world \<Rightarrow> (error + unit) \<times> 's world" where
  "remove cfg ident w =
     (case buildIdUrl (resource_baseUrl cfg) (resource_keyFields cfg) ident of
        Inl err \<Rightarrow> (Inl err, w)
      | Inr url \<Rightarrow>
          (let w1 = called (ApiRequest ''DELETE'' url) w in
           case api_delete cfg url of
             Inl err \<Rightarrow> (Inl err, w1)
           | Inr u \<Rightarrow>
               (case table_accessor cfg of
                  Inl err \<Rightarrow> (Inl err, w1)
                | Inr tbl \<Rightarrow>
                    (let keyToDelete = buildDexieKey ident (resource_keyFields cfg);
                         w2 = called (TableDelete keyToDelete) w1
                     in case table_delete tbl keyToDelete (store w2) of
                          Inl err \<Rightarrow> (Inl err, w2)
                        | Inr s' \<Rightarrow> (Inr (), w2\<lparr>store := s'\<rparr>)))))"

text \<open>
  The table accessor that \<^verbatim>\<open>createResourceAPI\<close> hands to the operations: the
  registry's table, or the error thrown when the resource is not initialized.
\<close>

definition resource_table :: "table_registry \<Rightarrow> string \<Rightarrow> 's table \<Rightarrow> error + 's table" where
  "resource_table r name tbl =
     (case getTable r name tbl of
        None \<Rightarrow> Inl (NotInitializedError name)
      | Some t \<Rightarrow> Inr t)"

text \<open>
  An in-memory table keyed by the primary key, used to run the operations on
  concrete inputs: records are stored under the key that \<^verbatim>\<open>buildDexieKey\<close>
  gives their identifier.
\<close>

definition memory_table :: "string list option \<Rightarrow> (jsval \<times> entity) list table" where
  "memory_table kf =
     \<lparr>table_get = (\<lambda>k s. Inr (map_of s k)),
      table_put = (\<lambda>e s. Inr (AList.update (buildDexieKey (getEntityId e kf) kf) e s)),
      table_delete = (\<lambda>k s. Inr (AList.delete k s))\<rparr>"

text \<open>
  The configuration that \<^verbatim>\<open>createResourceAPI\<close> builds for a resource: the
  normalizer and the URL builder are those of the resource's own key fields
  and base URL, and the table is looked up in the registry at each call.
\<close>

definition resource_config ::
  "string \<Rightarrow> string \<Rightarrow> string list option \<Rightarrow> table_registry \<Rightarrow> 's table
     \<Rightarrow> (string \<Rightarrow> error + entity) \<Rightarrow> (string \<Rightarrow> error + unit) \<Rightarrow> 's operations_config" where
  "resource_config name url kf r tbl fetch del =
     \<lparr>resource_name = name, resource_baseUrl = url, resource_keyFields = kf,
      table_accessor = resource_table r name tbl, api_get = fetch, api_delete = del\<rparr>"

text \<open>The resource \<^verbatim>\<open>"tags"\<close> of the scenarios, one identifier and its record.\<close>

definition tags_keyFields :: "string list option" where
  "tags_keyFields = Some [''spaceId'', ''tagName'']"

definition tags_config ::
  "(string \<Rightarrow> error + entity) \<Rightarrow> (string \<Rightarrow> error + unit) \<Rightarrow> (jsval \<times> entity) list operations_config" where
  "tags_config fetch del =
     resource_config ''tags'' ''/tags'' tags_keyFields registry_ready (memory_table tags_keyFields) fetch del"

definition tag_id :: jsval where
  "tag_id = JObj [(''spaceId'', JStr ''s1''), (''tagName'', JStr ''t1'')]"

definition tag_record :: entity where
  "tag_record = [(''spaceId'', JStr ''s1''), (''tagName'', JStr ''t1''), (''color'', JStr ''red'')]"

definition tag_response :: entity where
  "tag_response =
     [(''spaceId'', JObj [(''id'', JStr ''s1''), (''name'', JStr ''Work'')]),
      (''tagName'', JStr ''t1''), (''color'', JStr ''red'')]"

definition tags_world :: "(jsval \<times> entity) list world" where
  "tags_world = \<lparr>store = [(JArr [JStr ''s1'', JStr ''t1''], tag_record)], calls = [], console = []\<rparr>"

definition empty_world :: "(jsval \<times> entity) list world" where
  "empty_world = \<lparr>store = [], calls = [], console = []\<rparr>"

section \<open>The table registry: registration and initialization\<close>

lemma initializeAll_sequential:
  "initializeAll open_result r =
     (if pendingTables r = [] then (Inr (), r)
      else
        let tablesToRegister = map (\<lambda>(name, c). (name, config_keyFields c)) (pendingTables r) in
        case createTables tablesToRegister open_result r of
          (Inl err, r') \<Rightarrow> (Inl err, r')
        | (Inr u, r') \<Rightarrow> (Inr (), r'\<lparr>pendingTables := []\<rparr>))"
  by (simp add: initializeAll_def initializeAll_during_def Let_def split: prod.splits sum.splits)

lemma set_foldl_set_add: "set (foldl set_add xs ys) = set xs \<union> set ys"
  by (induction ys arbitrary: xs) (auto simp: set_add_def)

lemma createTables_registers:
  assumes "createTables tables open_result r = (Inr u, r')"
  shows "fst ` set tables \<subseteq> set (registeredTables r')"
proof (cases "tables = [] \<or> filter (\<lambda>(name, keyFields). name \<notin> set (registeredTables r)) tables = []")
  case True
  then have "r' = r \<and> (\<forall>p \<in> set tables. fst p \<in> set (registeredTables r))"
    using assms
    by (auto simp: createTables_def filter_empty_conv split: option.splits if_splits)
  then show ?thesis by auto
next
  case False
  then have reg: "registeredTables r' =
      foldl set_add (registeredTables r)
        (map fst (filter (\<lambda>(name, keyFields). name \<notin> set (registeredTables r)) tables))"
    using assms
    by (auto simp: createTables_def Let_def db_close_def db_version_stores_def
             split: option.splits if_splits)
  show ?thesis
    unfolding reg set_foldl_set_add by force
qed

lemma initializeAll_registers:
  assumes "initializeAll open_result r = (Inr u, r')"
  shows "fst ` set (pendingTables r) \<subseteq> set (registeredTables r') \<and> pendingTables r' = []"
proof (cases "pendingTables r = []")
  case True
  then show ?thesis using assms by (simp add: initializeAll_sequential)
next
  case False
  obtain res r1 where ct: "createTables (map (\<lambda>(name, c). (name, config_keyFields c)) (pendingTables r)) open_result r = (res, r1)"
    by (cases "createTables (map (\<lambda>(name, c). (name, config_keyFields c)) (pendingTables r)) open_result r")
  with False assms obtain u' where ok: "res = Inr u'" and r': "r' = r1\<lparr>pendingTables := []\<rparr>"
    by (auto simp: initializeAll_sequential Let_def split: sum.splits)
  have "fst ` set (map (\<lambda>(name, c). (name, config_keyFields c)) (pendingTables r)) \<subseteq> set (registeredTables r1)"
    using createTables_registers ct ok by blast
  moreover have "fst ` set (map (\<lambda>(name, c). (name, config_keyFields c)) (pendingTables r)) = fst ` set (pendingTables r)"
    by force
  ultimately show ?thesis using r' by simp
qed

lemma registerTable_pending:
  "registerTable name kf url r = (Inr u, r1) \<Longrightarrow>
     name \<in> fst ` set (pendingTables r1) \<and> registeredTables r1 = registeredTables r"
  by (auto simp: registerTable_def dom_update split: if_splits)

text \<open>
  C7.  Registering a table name that the registry already knows throws
  the duplicate-resource error and changes nothing: the pending tables, the
  registered tables, the database and the list of database calls are those of
  before.  This holds for a name that is pending, for a name that is
  registered, and for a name that is both; in particular a second
  registration directly after the first fails, and so does a registration
  after the first one has been initialized.
\<close>

theorem registerTable_duplicate:
  "(hasTable r name \<longrightarrow>
      registerTable name keyFields baseUrl r = (Inl (DuplicateResourceError name), r))
   \<and> (registerTable name kf1 url1 r = (Inr (), r1) \<longrightarrow>
        registerTable name keyFields baseUrl r1 = (Inl (DuplicateResourceError name), r1))
   \<and> (registerTable name kf1 url1 r = (Inr (), r1) \<and> initializeAll opened r1 = (Inr (), r2) \<longrightarrow>
        name \<in> set (registeredTables r2) \<and> pendingTables r2 = []
        \<and> registerTable name keyFields baseUrl r2 = (Inl (DuplicateResourceError name), r2))"
proof (intro conjI impI)
  assume "hasTable r name"
  then show "registerTable name keyFields baseUrl r = (Inl (DuplicateResourceError name), r)"
    by (simp add: hasTable_def registerTable_def)
next
  assume "registerTable name kf1 url1 r = (Inr (), r1)"
  then have "name \<in> fst ` set (pendingTables r1)"
    using registerTable_pending by blast
  then show "registerTable name keyFields baseUrl r1 = (Inl (DuplicateResourceError name), r1)"
    by (simp add: registerTable_def)
next
  assume a: "registerTable name kf1 url1 r = (Inr (), r1) \<and> initializeAll opened r1 = (Inr (), r2)"
  then have p: "name \<in> fst ` set (pendingTables r1)"
    using registerTable_pending by blast
  from a have "fst ` set (pendingTables r1) \<subseteq> set (registeredTables r2) \<and> pendingTables r2 = []"
    using initializeAll_registers by blast
  with p show "name \<in> set (registeredTables r2)" "pendingTables r2 = []" by auto
  then show "registerTable name keyFields baseUrl r2 = (Inl (DuplicateResourceError name), r2)"
    by (simp add: registerTable_def)
qed

lemmas registry_defs =
  registerTable_def initializeAll_sequential createTables_def hasTable_def new_registry_def
  db_close_def db_version_stores_def set_add_def keySpec_def has_fields_def fields_of_def
  obj_set_def array_index_def is_digit_def

theorem registerTable_duplicate_witness:
  "hasTable (snd (registerTable ''users'' None (Some ''/api/users'') new_registry)) ''users''
   \<and> registerTable ''users'' None (Some ''/api/users'') new_registry
       = (Inr (), snd (registerTable ''users'' None (Some ''/api/users'') new_registry))
   \<and> initializeAll None (snd (registerTable ''users'' None (Some ''/api/users'') new_registry))
       = (Inr (), snd (initializeAll None (snd (registerTable ''users'' None (Some ''/api/users'') new_registry))))
   \<and> registerTable ''users'' (Some [''a'']) (Some ''/2'')
         (snd (registerTable ''users'' None (Some ''/api/users'') new_registry))
       = (Inl (DuplicateResourceError ''users''),
          snd (registerTable ''users'' None (Some ''/api/users'') new_registry))
   \<and> registerTable ''users'' (Some [''a'']) (Some ''/2'')
         (snd (initializeAll None (snd (registerTable ''users'' None (Some ''/api/users'') new_registry))))
       = (Inl (DuplicateResourceError ''users''),
          snd (initializeAll None (snd (registerTable ''users'' None (Some ''/api/users'') new_registry))))"
  using registerTable_duplicate
          [of "snd (registerTable ''users'' None (Some ''/api/users'') new_registry)" "''users''"
              "Some [''a'']" "Some ''/2''"]
        registerTable_duplicate
          [of new_registry "''users''" "Some [''a'']" "Some ''/2''" None "Some ''/api/users''"
              "snd (registerTable ''users'' None (Some ''/api/users'') new_registry)" None
              "snd (initializeAll None (snd (registerTable ''users'' None (Some ''/api/users'') new_registry)))"]
  by (simp add: registry_defs Let_def)

lemma set_insert_index: "set (insert_index i k v ps) = insert (k, v) (set ps)"
  by (induction ps) (auto split: option.splits if_splits)

lemma keys_insert_index: "fst ` set (insert_index i k v ps) = insert k (fst ` set ps)"
  by (simp add: set_insert_index)

lemma map_fst_replace:
  "map fst (map (\<lambda>(k', v'). if k' = k then (k', v) else (k', v')) ps) = map fst ps"
  by (induction ps) auto

lemma keys_obj_set: "fst ` set (obj_set ps k v) = insert k (fst ` set ps)"
proof (cases "k \<in> fst ` set ps")
  case True
  have "fst ` set (map (\<lambda>(k', v'). if k' = k then (k', v) else (k', v')) ps) = fst ` set ps"
    using map_fst_replace [of k v ps] by (metis list.set_map)
  with True show ?thesis by (auto simp: obj_set_def)
next
  case False
  then show ?thesis
    by (auto simp: obj_set_def keys_insert_index split: option.splits)
qed

lemma keys_stores:
  "fst ` set (foldl (\<lambda>acc (name, keyFields). obj_set acc name (keySpec keyFields)) acc tables)
     = fst ` set acc \<union> fst ` set tables"
proof (induction tables arbitrary: acc)
  case Nil
  then show ?case by simp
next
  case (Cons t ts)
  then show ?case by (cases t) (simp add: keys_obj_set)
qed

lemma createTables_all_registered:
  assumes "registrationQueue r = None" and "fst ` set tables \<subseteq> set (registeredTables r)"
  shows "createTables tables open_result r = (Inr (), r)"
proof -
  have "filter (\<lambda>(name, keyFields). name \<notin> set (registeredTables r)) tables = []"
    using assms(2) by (auto simp: filter_empty_conv)
  then show ?thesis using assms(1) by (simp add: createTables_def)
qed

lemma createTables_stores_new:
  assumes "createTables tables open_result r = (res, r')"
  shows "\<forall>n s. DbVersionStores n s \<in> set (drop (length (db_calls r)) (db_calls r')) \<longrightarrow>
           n = verno (db r) + 1 \<and> fst ` set s = fst ` set tables - set (registeredTables r)"
proof (cases "tables = [] \<or> registrationQueue r \<noteq> None \<or> filter (\<lambda>(name, keyFields). name \<notin> set (registeredTables r)) tables = []")
  case True
  then have "r' = r" using assms
    by (auto simp: createTables_def split: option.splits if_splits)
  then show ?thesis by simp
next
  case False
  let ?new = "filter (\<lambda>(name, keyFields). name \<notin> set (registeredTables r)) tables"
  let ?stores = "foldl (\<lambda>acc (name, keyFields). obj_set acc name (keySpec keyFields)) [] ?new"
  have calls: "drop (length (db_calls r)) (db_calls r') =
        (if isOpen (db r) then [DbClose] else []) @ [DbVersionStores (verno (db r) + 1) ?stores, DbOpen]"
    using False assms
    by (auto simp: createTables_def Let_def db_close_def db_version_stores_def
             split: option.splits if_splits)
  have "fst ` set ?stores = fst ` set tables - set (registeredTables r)"
    unfolding keys_stores by force
  then show ?thesis unfolding calls by auto
qed

lemma createTables_rejected:
  "registrationQueue r = Some err \<Longrightarrow> tables \<noteq> [] \<Longrightarrow> createTables tables open_result r = (Inl err, r)"
  by (simp add: createTables_def)

lemma createTables_failure:
  assumes "createTables tables open_result r = (Inl err, r')"
  shows "registrationQueue r' = Some err"
  using assms
  by (auto simp: createTables_def Let_def db_close_def db_version_stores_def
           split: option.splits if_splits)

lemma registerTable_frame:
  "db (snd (registerTable name kf url r)) = db r
   \<and> db_calls (snd (registerTable name kf url r)) = db_calls r
   \<and> registeredTables (snd (registerTable name kf url r)) = registeredTables r
   \<and> registrationQueue (snd (registerTable name kf url r)) = registrationQueue r"
  by (simp add: registerTable_def)

lemma registrations_frame:
  "db (registrations cs r) = db r
   \<and> db_calls (registrations cs r) = db_calls r
   \<and> registeredTables (registrations cs r) = registeredTables r
   \<and> registrationQueue (registrations cs r) = registrationQueue r"
proof (induction cs arbitrary: r)
  case Nil
  show ?case by simp
next
  case (Cons c cs)
  obtain name kf url where c: "c = Registration name kf url" by (cases c)
  show ?case
    using Cons.IH [of "snd (registerTable name kf url r)"] registerTable_frame [of name kf url r] c
    by simp
qed

lemma createTables_registered:
  assumes "createTables tables open_result r = (res, r')"
  shows "set (registeredTables r') \<subseteq> set (registeredTables r) \<union> fst ` set tables"
proof (cases "tables = [] \<or> registrationQueue r \<noteq> None
               \<or> filter (\<lambda>(name, keyFields). name \<notin> set (registeredTables r)) tables = []")
  case True
  then have "r' = r" using assms
    by (auto simp: createTables_def split: option.splits if_splits)
  then show ?thesis by auto
next
  case False
  then have reg: "registeredTables r' =
      foldl set_add (registeredTables r)
        (map fst (filter (\<lambda>(name, keyFields). name \<notin> set (registeredTables r)) tables))"
    using assms
    by (auto simp: createTables_def Let_def db_close_def db_version_stores_def
             split: option.splits if_splits)
  show ?thesis
    unfolding reg set_foldl_set_add by force
qed

text \<open>What a call of \<^verbatim>\<open>initializeAll\<close> leaves, with registrations in flight.\<close>

lemma initializeAll_during_cases:
  assumes "pendingTables r \<noteq> []"
    and "createTables (map (\<lambda>(name, c). (name, config_keyFields c)) (pendingTables r)) open_result
           (registrations early r) = (created, r2)"
  shows "initializeAll_during early late open_result r =
           (case created of
              Inl err \<Rightarrow> (Inl err, registrations late r2)
            | Inr u \<Rightarrow> (Inr (), (registrations late r2)\<lparr>pendingTables := []\<rparr>))"
  using assms by (simp add: initializeAll_during_def Let_def)

lemma initializeAll_during_settled:
  assumes "initializeAll_during early late open_result r = (res, r')"
  shows "pendingTables r' = [] \<or> (\<exists>err. registrationQueue r' = Some err)"
proof (cases "pendingTables r = []")
  case True
  then show ?thesis using assms by (simp add: initializeAll_during_def)
next
  case False
  obtain created r2 where ct:
    "createTables (map (\<lambda>(name, c). (name, config_keyFields c)) (pendingTables r)) open_result
       (registrations early r) = (created, r2)"
    by (cases "createTables (map (\<lambda>(name, c). (name, config_keyFields c)) (pendingTables r)) open_result
                 (registrations early r)")
  show ?thesis
  proof (cases created)
    case (Inl err)
    with ct have "registrationQueue r2 = Some err"
      using createTables_failure by blast
    then have "registrationQueue (registrations late r2) = Some err"
      using registrations_frame by simp
    moreover have "r' = registrations late r2"
      using assms initializeAll_during_cases [OF False ct] Inl by simp
    ultimately show ?thesis by blast
  next
    case (Inr u)
    then have "r' = (registrations late r2)\<lparr>pendingTables := []\<rparr>"
      using assms initializeAll_during_cases [OF False ct] by simp
    then show ?thesis by simp
  qed
qed

lemma initializeAll_during_registers:
  assumes "initializeAll_during early late open_result r = (Inr u, r')"
  shows "pendingTables r' = []
         \<and> fst ` set (pendingTables r) \<subseteq> set (registeredTables r')
         \<and> set (registeredTables r') \<subseteq> set (registeredTables r) \<union> fst ` set (pendingTables r)"
proof (cases "pendingTables r = []")
  case True
  then show ?thesis using assms by (simp add: initializeAll_during_def)
next
  case False
  let ?tables = "map (\<lambda>(name, c). (name, config_keyFields c)) (pendingTables r)"
  obtain created r2 where ct:
    "createTables ?tables open_result (registrations early r) = (created, r2)"
    by (cases "createTables ?tables open_result (registrations early r)")
  have res: "(Inr u, r') =
           (case created of
              Inl err \<Rightarrow> (Inl err, registrations late r2)
            | Inr u \<Rightarrow> (Inr (), (registrations late r2)\<lparr>pendingTables := []\<rparr>))"
    using assms initializeAll_during_cases [OF False ct] by simp
  then obtain u' where ok: "created = Inr u'" and r': "r' = (registrations late r2)\<lparr>pendingTables := []\<rparr>"
    by (cases created) simp_all
  have names: "fst ` set ?tables = fst ` set (pendingTables r)" by force
  have "fst ` set ?tables \<subseteq> set (registeredTables r2)"
    using createTables_registers ct ok by blast
  moreover have "set (registeredTables r2) \<subseteq> set (registeredTables (registrations early r)) \<union> fst ` set ?tables"
    using createTables_registered ct by blast
  moreover have "registeredTables r' = registeredTables r2"
    using r' registrations_frame by simp
  moreover have "registeredTables (registrations early r) = registeredTables r"
    using registrations_frame by simp
  ultimately show ?thesis using r' names by simp
qed

lemma initializeAll_settled:
  assumes "initializeAll open_result r = (res, r')"
  shows "pendingTables r' = [] \<or> (\<exists>err. registrationQueue r' = Some err)"
  using assms initializeAll_during_settled by (simp add: initializeAll_def)

lemma initializeAll_no_migration:
  assumes "pendingTables r = [] \<or> (\<exists>err. registrationQueue r = Some err)"
    and "initializeAll open_result r = (res, r')"
  shows "db r' = db r \<and> db_calls r' = db_calls r \<and> registeredTables r' = registeredTables r"
proof (cases "pendingTables r = []")
  case True
  then show ?thesis using assms(2) by (simp add: initializeAll_sequential)
next
  case False
  with assms(1) obtain err where q: "registrationQueue r = Some err" by blast
  have "createTables (map (\<lambda>(name, c). (name, config_keyFields c)) (pendingTables r)) open_result r
          = (Inl err, r)"
    using createTables_rejected [OF q] False by simp
  then show ?thesis using assms(2) False by (simp add: initializeAll_sequential)
qed

lemma registry_users_value:
  "registry_users =
     \<lparr>db = \<lparr>isOpen = False, verno = 1, schema = []\<rparr>, db_calls = [],
      registeredTables = [], registrationQueue = None,
      pendingTables = [(''users'', \<lparr>config_keyFields = None, config_baseUrl = ''/api/users''\<rparr>)]\<rparr>"
  by (simp add: registry_users_def registerTable_def new_registry_def)

lemma posts_accepted:
  "registrations [register_posts] registry_users =
     \<lparr>db = \<lparr>isOpen = False, verno = 1, schema = []\<rparr>, db_calls = [],
      registeredTables = [], registrationQueue = None,
      pendingTables = [(''users'', \<lparr>config_keyFields = None, config_baseUrl = ''/api/users''\<rparr>),
                       (''posts'', \<lparr>config_keyFields = None, config_baseUrl = ''/api/posts''\<rparr>)]\<rparr>"
  by (simp add: registry_users_value register_posts_def registerTable_def)

lemma posts_dropped_early:
  "initializeAll_during [register_posts] [] None registry_users =
     (Inr (),
      \<lparr>db = \<lparr>isOpen = True, verno = 2, schema = [(''users'', ''id'')]\<rparr>,
       db_calls = [DbVersionStores 2 [(''users'', ''id'')], DbOpen],
       registeredTables = [''users''], registrationQueue = None, pendingTables = []\<rparr>)"
  by (simp add: initializeAll_during_def posts_accepted Let_def)
     (simp add: registry_users_value createTables_def db_version_stores_def set_add_def keySpec_def
        has_fields_def obj_set_def array_index_def is_digit_def Let_def)

lemma posts_dropped_late:
  "initializeAll_during [] [register_posts] None registry_users =
     (Inr (),
      \<lparr>db = \<lparr>isOpen = True, verno = 2, schema = [(''users'', ''id'')]\<rparr>,
       db_calls = [DbVersionStores 2 [(''users'', ''id'')], DbOpen],
       registeredTables = [''users''], registrationQueue = None, pendingTables = []\<rparr>)"
  by (simp add: initializeAll_during_def registry_users_value createTables_def db_version_stores_def
        set_add_def keySpec_def has_fields_def obj_set_def array_index_def is_digit_def Let_def
        register_posts_def registerTable_def)

text \<open>
  C8.  A second \<^verbatim>\<open>initializeAll\<close> migrates nothing: whatever the first
  call returned and whatever was registered while it ran, a following call
  with nothing in between leaves the database (its version, its open flag,
  its schema), the list of database calls and the registered tables as they
  were.  A successful \<^verbatim>\<open>initializeAll\<close> registers every table that was pending
  when it was called, and repeating it returns the same registry.  Tables that
  are already registered are skipped when they are submitted again: if all
  submitted tables are registered nothing happens, and otherwise the one
  schema declared, at the next version, has exactly the submitted names that
  were not registered.  But not every pending table is moved to registered: a
  table registered while the call is in flight is pending when the call
  clears the pending map, and is cleared without being registered.  With
  \<^verbatim>\<open>"users"\<close> pending, a registration of \<^verbatim>\<open>"posts"\<close> made after
  \<^verbatim>\<open>initializeAll()\<close> was called and before it resolves is accepted, the call
  resolves, and \<^verbatim>\<open>"posts"\<close> is then neither pending nor registered; in general
  no name that was neither pending at the call nor registered before is known
  to the registry after a successful call.
\<close>

theorem initializeAll_in_flight:
  "(initializeAll_during early late opened r = (res1, r1) \<and> initializeAll opened2 r1 = (res2, r2) \<longrightarrow>
      db r2 = db r1 \<and> db_calls r2 = db_calls r1 \<and> registeredTables r2 = registeredTables r1)
   \<and> (initializeAll_during early late opened r = (Inr (), r1) \<longrightarrow>
        pendingTables r1 = []
        \<and> fst ` set (pendingTables r) \<subseteq> set (registeredTables r1)
        \<and> initializeAll opened2 r1 = (Inr (), r1))
   \<and> (registrationQueue r = None \<and> fst ` set tables \<subseteq> set (registeredTables r) \<longrightarrow>
        createTables tables opened r = (Inr (), r))
   \<and> (createTables tables opened r = (res, r') \<longrightarrow>
        (\<forall>n s. DbVersionStores n s \<in> set (drop (length (db_calls r)) (db_calls r')) \<longrightarrow>
           n = verno (db r) + 1 \<and> fst ` set s = fst ` set tables - set (registeredTables r)))
   \<and> (initializeAll_during early late opened r = (Inr (), r1)
        \<and> name \<notin> fst ` set (pendingTables r) \<and> name \<notin> set (registeredTables r) \<longrightarrow>
        \<not> hasTable r1 name)
   \<and> ''posts'' \<in> fst ` set (pendingTables (registrations [register_posts] registry_users))
   \<and> fst (initializeAll_during [register_posts] [] None registry_users) = Inr ()
   \<and> \<not> hasTable (snd (initializeAll_during [register_posts] [] None registry_users)) ''posts''
   \<and> fst (initializeAll_during [] [register_posts] None registry_users) = Inr ()
   \<and> \<not> hasTable (snd (initializeAll_during [] [register_posts] None registry_users)) ''posts''"
proof (intro conjI impI)
  assume a: "initializeAll_during early late opened r = (res1, r1) \<and> initializeAll opened2 r1 = (res2, r2)"
  then have "pendingTables r1 = [] \<or> (\<exists>err. registrationQueue r1 = Some err)"
    using initializeAll_during_settled by blast
  then have "db r2 = db r1 \<and> db_calls r2 = db_calls r1 \<and> registeredTables r2 = registeredTables r1"
    using a initializeAll_no_migration by blast
  then show "db r2 = db r1" "db_calls r2 = db_calls r1" "registeredTables r2 = registeredTables r1"
    by simp_all
next
  assume a: "initializeAll_during early late opened r = (Inr (), r1)"
  then show p: "pendingTables r1 = []" and "fst ` set (pendingTables r) \<subseteq> set (registeredTables r1)"
    using initializeAll_during_registers by blast+
  from p show "initializeAll opened2 r1 = (Inr (), r1)"
    by (simp add: initializeAll_sequential)
next
  assume "registrationQueue r = None \<and> fst ` set tables \<subseteq> set (registeredTables r)"
  then show "createTables tables opened r = (Inr (), r)"
    using createTables_all_registered by blast
next
  assume "createTables tables opened r = (res, r')"
  then show "\<forall>n s. DbVersionStores n s \<in> set (drop (length (db_calls r)) (db_calls r')) \<longrightarrow>
           n = verno (db r) + 1 \<and> fst ` set s = fst ` set tables - set (registeredTables r)"
    by (rule createTables_stores_new)
next
  assume a: "initializeAll_during early late opened r = (Inr (), r1)
        \<and> name \<notin> fst ` set (pendingTables r) \<and> name \<notin> set (registeredTables r)"
  then have "pendingTables r1 = []
         \<and> set (registeredTables r1) \<subseteq> set (registeredTables r) \<union> fst ` set (pendingTables r)"
    using initializeAll_during_registers by blast
  with a show "\<not> hasTable r1 name"
    by (auto simp: hasTable_def)
next
  show "''posts'' \<in> fst ` set (pendingTables (registrations [register_posts] registry_users))"
    by (simp add: posts_accepted)
  show "fst (initializeAll_during [register_posts] [] None registry_users) = Inr ()"
    by (simp add: posts_dropped_early)
  show "\<not> hasTable (snd (initializeAll_during [register_posts] [] None registry_users)) ''posts''"
    by (simp add: posts_dropped_early hasTable_def)
  show "fst (initializeAll_during [] [register_posts] None registry_users) = Inr ()"
    by (simp add: posts_dropped_late)
  show "\<not> hasTable (snd (initializeAll_during [] [register_posts] None registry_users)) ''posts''"
    by (simp add: posts_dropped_late hasTable_def)
qed

lemma registry_pending_value:
  "registry_pending =
     \<lparr>db = \<lparr>isOpen = False, verno = 1, schema = []\<rparr>, db_calls = [],
      registeredTables = [], registrationQueue = None,
      pendingTables =
        [(''users'', \<lparr>config_keyFields = None, config_baseUrl = ''/api/users''\<rparr>),
         (''tags'', \<lparr>config_keyFields = Some [''spaceId'', ''tagName''], config_baseUrl = ''/tags''\<rparr>)]\<rparr>"
  by (simp add: registry_pending_def registerTable_def new_registry_def)

lemma registry_ready_value:
  "registry_ready =
     \<lparr>db = \<lparr>isOpen = True, verno = 2,
            schema = [(''users'', ''id''), (''tags'', ''[spaceId+tagName]'')]\<rparr>,
      db_calls = [DbVersionStores 2 [(''users'', ''id''), (''tags'', ''[spaceId+tagName]'')], DbOpen],
      registeredTables = [''users'', ''tags''], registrationQueue = None, pendingTables = []\<rparr>"
  by (simp add: registry_ready_def registry_pending_def registry_defs Let_def)

lemma registry_more_value:
  "createTables [(''users'', None), (''posts'', None)] None registry_ready =
     (Inr (),
      \<lparr>db = \<lparr>isOpen = True, verno = 3,
            schema = [(''users'', ''id''), (''tags'', ''[spaceId+tagName]''), (''posts'', ''id'')]\<rparr>,
      db_calls = [DbVersionStores 2 [(''users'', ''id''), (''tags'', ''[spaceId+tagName]'')], DbOpen,
                  DbClose, DbVersionStores 3 [(''posts'', ''id'')], DbOpen],
      registeredTables = [''users'', ''tags'', ''posts''], registrationQueue = None, pendingTables = []\<rparr>)"
  by (simp add: registry_ready_value registry_defs Let_def)

lemma registry_ready_sequential: "initializeAll None registry_pending = (Inr (), registry_ready)"
  by (simp add: registry_ready_def registry_pending_def registry_defs Let_def)

lemma registry_ready_during: "initializeAll_during [] [] None registry_pending = (Inr (), registry_ready)"
  using registry_ready_sequential by (simp add: initializeAll_def)

lemma registry_ready_again: "initializeAll None registry_ready = (Inr (), registry_ready)"
  by (simp add: registry_ready_value initializeAll_sequential)

lemma registry_ready_skips: "createTables [(''users'', None)] None registry_ready = (Inr (), registry_ready)"
  by (simp add: registry_ready_value createTables_def)

lemma users_flight:
  "initializeAll_during [register_posts] [] None registry_users
     = (Inr (), snd (initializeAll_during [register_posts] [] None registry_users))"
  by (simp add: posts_dropped_early)

theorem initializeAll_in_flight_witness:
  "initializeAll_during [] [] None registry_pending = (Inr (), registry_ready)
   \<and> initializeAll None registry_ready = (Inr (), registry_ready)
   \<and> pendingTables registry_pending \<noteq> []
   \<and> pendingTables registry_ready = []
   \<and> registeredTables registry_ready = [''users'', ''tags'']
   \<and> db_calls registry_ready
        = [DbVersionStores 2 [(''users'', ''id''), (''tags'', ''[spaceId+tagName]'')], DbOpen]
   \<and> registrationQueue registry_ready = None
   \<and> createTables [(''users'', None)] None registry_ready = (Inr (), registry_ready)
   \<and> DbVersionStores 3 [(''posts'', ''id'')]
        \<in> set (drop (length (db_calls registry_ready))
                  (db_calls (snd (createTables [(''users'', None), (''posts'', None)] None registry_ready))))
   \<and> ''posts'' \<notin> fst ` set (pendingTables registry_users)
   \<and> ''posts'' \<notin> set (registeredTables registry_users)
   \<and> ''users'' \<in> set (registeredTables (snd (initializeAll_during [register_posts] [] None registry_users)))
   \<and> \<not> hasTable (snd (initializeAll_during [register_posts] [] None registry_users)) ''posts''"
proof (intro conjI)
  show "initializeAll_during [] [] None registry_pending = (Inr (), registry_ready)"
    by (rule registry_ready_during)
  show "initializeAll None registry_ready = (Inr (), registry_ready)"
    using initializeAll_in_flight
            [where early = "[]" and late = "[]" and opened = None and r = registry_pending
               and ?r1.0 = registry_ready and ?opened2.0 = None, THEN conjunct2, THEN conjunct1]
          registry_ready_during
    by simp
  show "pendingTables registry_pending \<noteq> []"
    by (simp add: registry_pending_value)
  show "pendingTables registry_ready = []" "registeredTables registry_ready = [''users'', ''tags'']"
    "db_calls registry_ready
        = [DbVersionStores 2 [(''users'', ''id''), (''tags'', ''[spaceId+tagName]'')], DbOpen]"
    "registrationQueue registry_ready = None"
    by (simp_all add: registry_ready_value)
  show "createTables [(''users'', None)] None registry_ready = (Inr (), registry_ready)"
    using initializeAll_in_flight
            [where r = registry_ready and tables = "[(''users'', None)]" and opened = None,
             THEN conjunct2, THEN conjunct2, THEN conjunct1]
    by (simp add: registry_ready_value)
  show "DbVersionStores 3 [(''posts'', ''id'')]
        \<in> set (drop (length (db_calls registry_ready))
                  (db_calls (snd (createTables [(''users'', None), (''posts'', None)] None registry_ready))))"
    by (simp add: registry_more_value) (simp add: registry_ready_value)
  show "''posts'' \<notin> fst ` set (pendingTables registry_users)"
    "''posts'' \<notin> set (registeredTables registry_users)"
    by (simp_all add: registry_users_value)
  show "''users'' \<in> set (registeredTables (snd (initializeAll_during [register_posts] [] None registry_users)))"
    by (simp add: posts_dropped_early)
  show "\<not> hasTable (snd (initializeAll_during [register_posts] [] None registry_users)) ''posts''"
    using initializeAll_in_flight
            [where early = "[register_posts]" and late = "[]" and opened = None and r = registry_users
               and ?r1.0 = "snd (initializeAll_during [register_posts] [] None registry_users)"
               and name = "''posts''",
             THEN conjunct2, THEN conjunct2, THEN conjunct2, THEN conjunct2, THEN conjunct1]
          users_flight
    by (simp add: registry_users_value)
qed


section \<open>The operations: reads and removals\<close>

lemma tags_config_fields:
  "resource_name (tags_config fetch del) = ''tags''"
  "resource_baseUrl (tags_config fetch del) = ''/tags''"
  "resource_keyFields (tags_config fetch del) = tags_keyFields"
  "api_get (tags_config fetch del) = fetch"
  "api_delete (tags_config fetch del) = del"
  by (simp_all add: tags_config_def resource_config_def)

lemma tags_config_table:
  "table_accessor (tags_config fetch del) = Inr (memory_table tags_keyFields)"
  by (simp add: tags_config_def resource_config_def resource_table_def getTable_def
        registry_ready_value)

lemma memory_table_ops:
  "table_get (memory_table kf) k s = Inr (map_of s k)"
  "table_put (memory_table kf) e s = Inr (AList.update (buildDexieKey (getEntityId e kf) kf) e s)"
  "table_delete (memory_table kf) k s = Inr (AList.delete k s)"
  by (simp_all add: memory_table_def)

lemma tag_id_url: "buildIdUrl ''/tags'' tags_keyFields tag_id = Inr ''/tags/s1/t1''"
  by (simp add: tags_keyFields_def tag_id_def buildIdUrl_def has_fields_def fields_of_def
        typeof_object_def array_join_def js_prop_def obj_get_def extractPrimitiveValue_def truthy_def)

lemma tag_id_key: "buildDexieKey tag_id tags_keyFields = JArr [JStr ''s1'', JStr ''t1'']"
  by (simp add: tags_keyFields_def tag_id_def buildDexieKey_def has_fields_def fields_of_def
        typeof_object_def js_prop_def obj_get_def extractPrimitiveValue_def truthy_def)

lemma tag_response_normalized: "normalize tags_keyFields tag_response = tag_record"
  by (simp add: tags_keyFields_def tag_response_def tag_record_def normalize_def has_fields_def
        fields_of_def obj_get_def truthy_def typeof_object_def has_id_def js_prop_def obj_set_def)

lemma tag_record_key:
  "buildDexieKey (getEntityId tag_record tags_keyFields) tags_keyFields = JArr [JStr ''s1'', JStr ''t1'']"
  by (simp add: tags_keyFields_def tag_record_def getEntityId_def buildDexieKey_def has_fields_def
        fields_of_def obj_get_def extractPrimitiveValue_def truthy_def typeof_object_def js_prop_def
        obj_set_def array_index_def is_digit_def)

lemmas tags_values =
  tags_config_fields tags_config_table memory_table_ops tag_id_url tag_id_key
  tag_response_normalized tag_record_key




text \<open>
  C2.  \<^verbatim>\<open>remove\<close> sends the DELETE request first.  If the request fails,
  \<^verbatim>\<open>remove\<close> rejects with the error of the request, the store is the one of
  before and no call was made to the table.  If the request succeeds, the
  table is then asked to delete the key \<^verbatim>\<open>buildDexieKey(id, keyFields)\<close>, and
  the store is what that deletion leaves.  For the resource with base URL
  \<^verbatim>\<open>/tags\<close> and key fields \<^verbatim>\<open>["spaceId", "tagName"]\<close>, the identifier
  \<^verbatim>\<open>{spaceId: "s1", tagName: "t1"}\<close> gives the URL \<^verbatim>\<open>/tags/s1/t1\<close> and the key
  \<^verbatim>\<open>["s1", "t1"]\<close>.
\<close>

theorem remove_after_network:
  "(buildIdUrl (resource_baseUrl cfg) (resource_keyFields cfg) ident = Inr url
      \<and> api_delete cfg url = Inl err \<longrightarrow>
      remove cfg ident w = (Inl err, w\<lparr>calls := calls w @ [ApiRequest ''DELETE'' url]\<rparr>))
   \<and> (buildIdUrl (resource_baseUrl cfg) (resource_keyFields cfg) ident = Inr url
      \<and> api_delete cfg url = Inr ()
      \<and> table_accessor cfg = Inr tbl
      \<and> table_delete tbl (buildDexieKey ident (resource_keyFields cfg)) (store w) = Inr s' \<longrightarrow>
      remove cfg ident w =
        (Inr (), w\<lparr>store := s',
                   calls := calls w @ [ApiRequest ''DELETE'' url,
                                       TableDelete (buildDexieKey ident (resource_keyFields cfg))]\<rparr>))
   \<and> buildIdUrl ''/tags'' (Some [''spaceId'', ''tagName''])
         (JObj [(''spaceId'', JStr ''s1''), (''tagName'', JStr ''t1'')]) = Inr ''/tags/s1/t1''
   \<and> buildDexieKey (JObj [(''spaceId'', JStr ''s1''), (''tagName'', JStr ''t1'')])
         (Some [''spaceId'', ''tagName'']) = JArr [JStr ''s1'', JStr ''t1'']"
proof (intro conjI impI)
  assume "buildIdUrl (resource_baseUrl cfg) (resource_keyFields cfg) ident = Inr url
      \<and> api_delete cfg url = Inl err"
  then show "remove cfg ident w = (Inl err, w\<lparr>calls := calls w @ [ApiRequest ''DELETE'' url]\<rparr>)"
    by (simp add: remove_def called_def)
next
  assume "buildIdUrl (resource_baseUrl cfg) (resource_keyFields cfg) ident = Inr url
      \<and> api_delete cfg url = Inr ()
      \<and> table_accessor cfg = Inr tbl
      \<and> table_delete tbl (buildDexieKey ident (resource_keyFields cfg)) (store w) = Inr s'"
  then show "remove cfg ident w =
        (Inr (), w\<lparr>store := s',
                   calls := calls w @ [ApiRequest ''DELETE'' url,
                                       TableDelete (buildDexieKey ident (resource_keyFields cfg))]\<rparr>)"
    by (simp add: remove_def called_def Let_def)
next
  show "buildIdUrl ''/tags'' (Some [''spaceId'', ''tagName''])
         (JObj [(''spaceId'', JStr ''s1''), (''tagName'', JStr ''t1'')]) = Inr ''/tags/s1/t1''"
    by (simp add: buildIdUrl_def has_fields_def fields_of_def typeof_object_def array_join_def
          js_prop_def obj_get_def extractPrimitiveValue_def truthy_def)
next
  show "buildDexieKey (JObj [(''spaceId'', JStr ''s1''), (''tagName'', JStr ''t1'')])
         (Some [''spaceId'', ''tagName'']) = JArr [JStr ''s1'', JStr ''t1'']"
    by (simp add: buildDexieKey_def has_fields_def fields_of_def typeof_object_def
          js_prop_def obj_get_def extractPrimitiveValue_def truthy_def)
qed

theorem remove_after_network_witness:
  "remove (tags_config (\<lambda>u. Inl (NetworkError ''offline'')) (\<lambda>u. Inl (NetworkError ''offline''))) tag_id tags_world
     = (Inl (NetworkError ''offline''),
        tags_world\<lparr>calls := [ApiRequest ''DELETE'' ''/tags/s1/t1'']\<rparr>)
   \<and> remove (tags_config (\<lambda>u. Inl (NetworkError ''offline'')) (\<lambda>u. Inr ())) tag_id tags_world
     = (Inr (),
        \<lparr>store = [], calls = [ApiRequest ''DELETE'' ''/tags/s1/t1'', TableDelete (JArr [JStr ''s1'', JStr ''t1''])],
         console = []\<rparr>)"
  using remove_after_network
          [of "tags_config (\<lambda>u. Inl (NetworkError ''offline'')) (\<lambda>u. Inl (NetworkError ''offline''))"
              tag_id "''/tags/s1/t1''" "NetworkError ''offline''" tags_world]
        remove_after_network
          [of "tags_config (\<lambda>u. Inl (NetworkError ''offline'')) (\<lambda>u. Inr ())"
              tag_id "''/tags/s1/t1''" "NetworkError ''offline''" tags_world
              "memory_table tags_keyFields" "[]"]
  by (simp add: tags_values tags_world_def)


lemma fetch_by_id_not_found:
  "api_get cfg url = Inl err \<Longrightarrow> isNotFound err \<Longrightarrow>
     fetch_by_id cfg tbl url w = (None, w\<lparr>calls := calls w @ [ApiRequest ''GET'' url]\<rparr>)"
  by (simp add: fetch_by_id_def called_def)

lemma fetch_by_id_failed:
  "api_get cfg url = Inl err \<Longrightarrow> \<not> isNotFound err \<Longrightarrow>
     fetch_by_id cfg tbl url w =
       (None, w\<lparr>calls := calls w @ [ApiRequest ''GET'' url],
                 console := console w @ [(''[Query] Failed to fetch '' @ resource_name cfg @ '' by ID: '', err)]\<rparr>)"
  by (simp add: fetch_by_id_def called_def console_error_def)

lemma fetch_by_id_success:
  "api_get cfg url = Inr data \<Longrightarrow>
   table_put tbl (normalize (resource_keyFields cfg) data) (store w) = Inr s' \<Longrightarrow>
     fetch_by_id cfg tbl url w =
       (Some data, w\<lparr>store := s',
                      calls := calls w @ [ApiRequest ''GET'' url,
                                          TablePut (normalize (resource_keyFields cfg) data)]\<rparr>)"
  by (simp add: fetch_by_id_def called_def Let_def)

lemma getById_resolves:
  assumes "table_accessor cfg = Inr tbl"
    and "table_get tbl ident (store w) = Inr cached"
    and "buildIdUrl (resource_baseUrl cfg) (resource_keyFields cfg) ident = Inr url"
  shows "getById cfg ident w =
           (Inr (case cached of Some c \<Rightarrow> Some c
                 | None \<Rightarrow> fst (fetch_by_id cfg tbl url (w\<lparr>calls := calls w @ [TableGet ident]\<rparr>))),
            snd (fetch_by_id cfg tbl url (w\<lparr>calls := calls w @ [TableGet ident]\<rparr>)))"
  using assms by (simp add: getById_def called_def Let_def case_prod_beta)

text \<open>
  C1.  \<^verbatim>\<open>getById\<close> does not reject because of the network: once the
  table is there, the cache read has returned and the URL is built, the call
  resolves whatever the request does.  On a cache miss, a request that fails
  with status 404 resolves the call to \<^verbatim>\<open>null\<close> and writes nothing to the
  console; a request that fails in any other way writes one line to the
  console and resolves the call to \<^verbatim>\<open>null\<close>; a request that succeeds has its
  data normalized and put into the table, and the call resolves to the data
  as received.
\<close>

theorem getById_network_outcomes:
  "(table_accessor cfg = Inr tbl
      \<and> table_get tbl ident (store w) = Inr cached
      \<and> buildIdUrl (resource_baseUrl cfg) (resource_keyFields cfg) ident = Inr url \<longrightarrow>
      (\<exists>result w'. getById cfg ident w = (Inr result, w')))
   \<and> (table_accessor cfg = Inr tbl
      \<and> table_get tbl ident (store w) = Inr None
      \<and> buildIdUrl (resource_baseUrl cfg) (resource_keyFields cfg) ident = Inr url
      \<and> api_get cfg url = Inl err \<and> isNotFound err \<longrightarrow>
      getById cfg ident w =
        (Inr None, w\<lparr>calls := calls w @ [TableGet ident, ApiRequest ''GET'' url]\<rparr>))
   \<and> (table_accessor cfg = Inr tbl
      \<and> table_get tbl ident (store w) = Inr None
      \<and> buildIdUrl (resource_baseUrl cfg) (resource_keyFields cfg) ident = Inr url
      \<and> api_get cfg url = Inl err \<and> \<not> isNotFound err \<longrightarrow>
      getById cfg ident w =
        (Inr None,
         w\<lparr>calls := calls w @ [TableGet ident, ApiRequest ''GET'' url],
           console := console w @ [(''[Query] Failed to fetch '' @ resource_name cfg @ '' by ID: '', err)]\<rparr>))
   \<and> (table_accessor cfg = Inr tbl
      \<and> table_get tbl ident (store w) = Inr None
      \<and> buildIdUrl (resource_baseUrl cfg) (resource_keyFields cfg) ident = Inr url
      \<and> api_get cfg url = Inr data
      \<and> table_put tbl (normalize (resource_keyFields cfg) data) (store w) = Inr s' \<longrightarrow>
      getById cfg ident w =
        (Inr (Some data),
         w\<lparr>store := s',
           calls := calls w @ [TableGet ident, ApiRequest ''GET'' url,
                               TablePut (normalize (resource_keyFields cfg) data)]\<rparr>))"
proof (intro conjI impI)
  assume "table_accessor cfg = Inr tbl
      \<and> table_get tbl ident (store w) = Inr cached
      \<and> buildIdUrl (resource_baseUrl cfg) (resource_keyFields cfg) ident = Inr url"
  then show "\<exists>result w'. getById cfg ident w = (Inr result, w')"
    using getById_resolves by blast
next
  assume a: "table_accessor cfg = Inr tbl
      \<and> table_get tbl ident (store w) = Inr None
      \<and> buildIdUrl (resource_baseUrl cfg) (resource_keyFields cfg) ident = Inr url
      \<and> api_get cfg url = Inl err \<and> isNotFound err"
  then have "fetch_by_id cfg tbl url (w\<lparr>calls := calls w @ [TableGet ident]\<rparr>)
       = (None, w\<lparr>calls := calls w @ [TableGet ident, ApiRequest ''GET'' url]\<rparr>)"
    by (simp add: fetch_by_id_not_found)
  with a show "getById cfg ident w =
        (Inr None, w\<lparr>calls := calls w @ [TableGet ident, ApiRequest ''GET'' url]\<rparr>)"
    by (simp add: getById_resolves)
next
  assume a: "table_accessor cfg = Inr tbl
      \<and> table_get tbl ident (store w) = Inr None
      \<and> buildIdUrl (resource_baseUrl cfg) (resource_keyFields cfg) ident = Inr url
      \<and> api_get cfg url = Inl err \<and> \<not> isNotFound err"
  then have "fetch_by_id cfg tbl url (w\<lparr>calls := calls w @ [TableGet ident]\<rparr>)
       = (None, w\<lparr>calls := calls w @ [TableGet ident, ApiRequest ''GET'' url],
           console := console w @ [(''[Query] Failed to fetch '' @ resource_name cfg @ '' by ID: '', err)]\<rparr>)"
    by (simp add: fetch_by_id_failed)
  with a show "getById cfg ident w =
        (Inr None,
         w\<lparr>calls := calls w @ [TableGet ident, ApiRequest ''GET'' url],
           console := console w @ [(''[Query] Failed to fetch '' @ resource_name cfg @ '' by ID: '', err)]\<rparr>)"
    by (simp add: getById_resolves)
next
  assume a: "table_accessor cfg = Inr tbl
      \<and> table_get tbl ident (store w) = Inr None
      \<and> buildIdUrl (resource_baseUrl cfg) (resource_keyFields cfg) ident = Inr url
      \<and> api_get cfg url = Inr data
      \<and> table_put tbl (normalize (resource_keyFields cfg) data) (store w) = Inr s'"
  then have "fetch_by_id cfg tbl url (w\<lparr>calls := calls w @ [TableGet ident]\<rparr>)
       = (Some data, w\<lparr>store := s',
           calls := calls w @ [TableGet ident, ApiRequest ''GET'' url,
                               TablePut (normalize (resource_keyFields cfg) data)]\<rparr>)"
    by (simp add: fetch_by_id_success)
  with a show "getById cfg ident w =
        (Inr (Some data),
         w\<lparr>store := s',
           calls := calls w @ [TableGet ident, ApiRequest ''GET'' url,
                               TablePut (normalize (resource_keyFields cfg) data)]\<rparr>)"
    by (simp add: getById_resolves)
qed


theorem getById_network_outcomes_witness:
  "getById (tags_config (\<lambda>u. Inl (ApiError 404 ''Not Found'')) (\<lambda>u. Inr ())) tag_id empty_world
     = (Inr None, \<lparr>store = [], calls = [TableGet tag_id, ApiRequest ''GET'' ''/tags/s1/t1''], console = []\<rparr>)
   \<and> getById (tags_config (\<lambda>u. Inl (NetworkError ''offline'')) (\<lambda>u. Inr ())) tag_id empty_world
     = (Inr None,
        \<lparr>store = [], calls = [TableGet tag_id, ApiRequest ''GET'' ''/tags/s1/t1''],
         console = [(''[Query] Failed to fetch tags by ID: '', NetworkError ''offline'')]\<rparr>)
   \<and> getById (tags_config (\<lambda>u. Inr tag_response) (\<lambda>u. Inr ())) tag_id empty_world
     = (Inr (Some tag_response),
        \<lparr>store = [(JArr [JStr ''s1'', JStr ''t1''], tag_record)],
         calls = [TableGet tag_id, ApiRequest ''GET'' ''/tags/s1/t1'', TablePut tag_record],
         console = []\<rparr>)"
proof (intro conjI)
  show "getById (tags_config (\<lambda>u. Inl (ApiError 404 ''Not Found'')) (\<lambda>u. Inr ())) tag_id empty_world
     = (Inr None, \<lparr>store = [], calls = [TableGet tag_id, ApiRequest ''GET'' ''/tags/s1/t1''], console = []\<rparr>)"
    using getById_network_outcomes
          [where cfg = "tags_config (\<lambda>u. Inl (ApiError 404 ''Not Found'')) (\<lambda>u. Inr ())"
             and tbl = "memory_table tags_keyFields" and ident = tag_id and w = empty_world
             and url = "''/tags/s1/t1''" and err = "ApiError 404 ''Not Found''", THEN conjunct2, THEN conjunct1]
    by (simp add: tags_values empty_world_def isNotFound_def)
next
  show "getById (tags_config (\<lambda>u. Inl (NetworkError ''offline'')) (\<lambda>u. Inr ())) tag_id empty_world
     = (Inr None,
        \<lparr>store = [], calls = [TableGet tag_id, ApiRequest ''GET'' ''/tags/s1/t1''],
         console = [(''[Query] Failed to fetch tags by ID: '', NetworkError ''offline'')]\<rparr>)"
    using getById_network_outcomes
          [where cfg = "tags_config (\<lambda>u. Inl (NetworkError ''offline'')) (\<lambda>u. Inr ())"
             and tbl = "memory_table tags_keyFields" and ident = tag_id and w = empty_world
             and url = "''/tags/s1/t1''" and err = "NetworkError ''offline''",
           THEN conjunct2, THEN conjunct2, THEN conjunct1]
    by (simp add: tags_values empty_world_def isNotFound_def)
next
  show "getById (tags_config (\<lambda>u. Inr tag_response) (\<lambda>u. Inr ())) tag_id empty_world
     = (Inr (Some tag_response),
        \<lparr>store = [(JArr [JStr ''s1'', JStr ''t1''], tag_record)],
         calls = [TableGet tag_id, ApiRequest ''GET'' ''/tags/s1/t1'', TablePut tag_record],
         console = []\<rparr>)"
    using getById_network_outcomes
          [where cfg = "tags_config (\<lambda>u. Inr tag_response) (\<lambda>u. Inr ())"
             and tbl = "memory_table tags_keyFields" and ident = tag_id and w = empty_world
             and url = "''/tags/s1/t1''" and data = tag_response
             and s' = "[(JArr [JStr ''s1'', JStr ''t1''], tag_record)]",
           THEN conjunct2, THEN conjunct2, THEN conjunct2]
    by (simp add: tags_values empty_world_def)
qed












section \<open>The filter matcher\<close>

lemma nat_to_string_5: "nat_to_string 5 = ''5''"
  by code_simp

lemma nat_to_string_42: "nat_to_string 42 = ''42''"
  by code_simp

lemma js_string_5: "js_string (JNum 5) = ''5''"
  by (simp add: int_to_string_def nat_to_string_5)

lemma special_params: "''count'' \<notin> SPECIAL_PARAMS" "''type'' \<notin> SPECIAL_PARAMS"
  by (simp_all add: SPECIAL_PARAMS_def)

lemma matchesFilter_array_step:
  assumes "key \<notin> SPECIAL_PARAMS"
  shows "matchesFilter e ((key, PArr xs) # rest) =
           (if obj_get e key \<in> JStr ` set xs then matchesFilter e rest else Inr False)"
  using assms by (simp add: is_array_def array_includes_def)

text \<open>
  C3.  The array branch tests membership with \<^verbatim>\<open>includes\<close>, that is by
  strict equality and without the string coercion of the scalar branch: the
  numeric field value 5 is not found in \<^verbatim>\<open>["5"]\<close>, although \<^verbatim>\<open>String(5)\<close> is
  \<^verbatim>\<open>"5"\<close> and the scalar parameter \<^verbatim>\<open>"5"\<close> matches the same record.  In
  general an array parameter lets the record through exactly when the field
  value is a string that is an element of the array.
\<close>

theorem matchesFilter_array_strict:
  "matchesFilter [(''count'', JNum 5)] [(''count'', PArr [''5''])] = Inr False
   \<and> js_string (JNum 5) = ''5''
   \<and> matchesFilter [(''count'', JNum 5)] [(''count'', PStr ''5'')] = Inr True
   \<and> (key \<notin> SPECIAL_PARAMS \<longrightarrow>
        matchesFilter e ((key, PArr xs) # rest) =
          (if obj_get e key \<in> JStr ` set xs then matchesFilter e rest else Inr False))"
proof (intro conjI impI)
  show "matchesFilter [(''count'', JNum 5)] [(''count'', PArr [''5''])] = Inr False"
    by (simp add: special_params is_array_def array_includes_def obj_get_def)
  show "js_string (JNum 5) = ''5''"
    by (rule js_string_5)
  show "matchesFilter [(''count'', JNum 5)] [(''count'', PStr ''5'')] = Inr True"
    by (simp add: special_params is_array_def obj_get_def typeof_object_def param_string_def
          int_to_string_def nat_to_string_5)
next
  assume "key \<notin> SPECIAL_PARAMS"
  then show "matchesFilter e ((key, PArr xs) # rest) =
          (if obj_get e key \<in> JStr ` set xs then matchesFilter e rest else Inr False)"
    by (rule matchesFilter_array_step)
qed

theorem matchesFilter_array_strict_witness:
  "''status'' \<notin> SPECIAL_PARAMS
   \<and> matchesFilter [(''id'', JStr ''1''), (''status'', JStr ''active'')]
         [(''status'', PArr [''active'', ''pending''])] = Inr True
   \<and> matchesFilter [(''id'', JStr ''1''), (''status'', JStr ''inactive'')]
         [(''status'', PArr [''active'', ''pending''])] = Inr False"
  using matchesFilter_array_strict
          [where key = "''status''" and e = "[(''id'', JStr ''1''), (''status'', JStr ''active'')]"
             and xs = "[''active'', ''pending'']" and rest = "[]"]
        matchesFilter_array_strict
          [where key = "''status''" and e = "[(''id'', JStr ''1''), (''status'', JStr ''inactive'')]"
             and xs = "[''active'', ''pending'']" and rest = "[]"]
  by (simp add: SPECIAL_PARAMS_def obj_get_def)

text \<open>
  C4.  For a field that holds a reference object, a scalar parameter is
  compared with the string of the reference's \<^verbatim>\<open>id\<close>; an array parameter is
  not: the array branch comes first and looks for the object itself among the
  strings, so the record with \<^verbatim>\<open>type: {id: "abc123"}\<close> matches the parameter
  \<^verbatim>\<open>"abc123"\<close> and does not match the parameter \<^verbatim>\<open>["abc123"]\<close>, and no
  reference field matches any array parameter.
\<close>

theorem matchesFilter_reference_array:
  "matchesFilter [(''type'', JObj [(''id'', JStr ''abc123''), (''name'', JStr ''Note'')])]
      [(''type'', PArr [''abc123''])] = Inr False
   \<and> matchesFilter [(''type'', JObj [(''id'', JStr ''abc123''), (''name'', JStr ''Note'')])]
      [(''type'', PStr ''abc123'')] = Inr True
   \<and> (key \<notin> SPECIAL_PARAMS \<and> obj_get e key = JObj ref \<longrightarrow>
        matchesFilter e ((key, PArr xs) # rest) = Inr False)
   \<and> (key \<notin> SPECIAL_PARAMS \<and> obj_get e key = JObj ref
        \<and> p \<noteq> PUndefined \<and> p \<noteq> PNull \<and> \<not> is_array p \<longrightarrow>
        matchesFilter e ((key, p) # rest) =
          (if js_string (obj_get ref ''id'') = param_string p then matchesFilter e rest else Inr False))"
proof (intro conjI impI)
  show "matchesFilter [(''type'', JObj [(''id'', JStr ''abc123''), (''name'', JStr ''Note'')])]
      [(''type'', PArr [''abc123''])] = Inr False"
    by (simp add: special_params is_array_def array_includes_def obj_get_def)
  show "matchesFilter [(''type'', JObj [(''id'', JStr ''abc123''), (''name'', JStr ''Note'')])]
      [(''type'', PStr ''abc123'')] = Inr True"
    by (simp add: special_params is_array_def obj_get_def typeof_object_def param_string_def
          js_get_def js_prop_def)
next
  assume "key \<notin> SPECIAL_PARAMS \<and> obj_get e key = JObj ref"
  then show "matchesFilter e ((key, PArr xs) # rest) = Inr False"
    by (auto simp: is_array_def array_includes_def)
next
  assume a: "key \<notin> SPECIAL_PARAMS \<and> obj_get e key = JObj ref
        \<and> p \<noteq> PUndefined \<and> p \<noteq> PNull \<and> \<not> is_array p"
  then show "matchesFilter e ((key, p) # rest) =
          (if js_string (obj_get ref ''id'') = param_string p then matchesFilter e rest else Inr False)"
    by (simp add: typeof_object_def js_get_def js_prop_def)
qed

theorem matchesFilter_reference_array_witness:
  "''category'' \<notin> SPECIAL_PARAMS
   \<and> obj_get [(''id'', JStr ''1''), (''category'', JObj [(''id'', JNum 42), (''name'', JStr ''Work'')])] ''category''
       = JObj [(''id'', JNum 42), (''name'', JStr ''Work'')]
   \<and> matchesFilter [(''id'', JStr ''1''), (''category'', JObj [(''id'', JNum 42), (''name'', JStr ''Work'')])]
        [(''category'', PStr ''42'')] = Inr True
   \<and> matchesFilter [(''id'', JStr ''1''), (''category'', JObj [(''id'', JNum 42), (''name'', JStr ''Work'')])]
        [(''category'', PArr [''42''])] = Inr False"
  using matchesFilter_reference_array
          [where key = "''category''"
             and e = "[(''id'', JStr ''1''), (''category'', JObj [(''id'', JNum 42), (''name'', JStr ''Work'')])]"
             and ref = "[(''id'', JNum 42), (''name'', JStr ''Work'')]"
             and xs = "[''42'']" and rest = "[]" and p = "PStr ''42''"]
  by (simp add: SPECIAL_PARAMS_def obj_get_def is_array_def param_string_def int_to_string_def
        nat_to_string_42)

lemma matchesFilter_total_without_null:
  assumes "\<forall>k. obj_get e k \<noteq> JNull"
  shows "\<exists>b. matchesFilter e ps = Inr b"
proof (induction ps)
  case Nil
  show ?case by (rule exI [of _ True]) simp
next
  case (Cons kp ps)
  obtain key p where kp: "kp = (key, p)" by (cases kp)
  from Cons obtain b where b: "matchesFilter e ps = Inr b" by blast
  have nn: "obj_get e key \<noteq> JNull" using assms by blast
  have get: "typeof_object (obj_get e key) \<Longrightarrow>
               js_get (obj_get e key) ''id'' = Inr (js_prop (obj_get e key) ''id'')"
    using nn by (auto simp: js_get_def typeof_object_def)
  show ?case
  proof (cases "typeof_object (obj_get e key)")
    case True
    then show ?thesis using kp b get by (auto simp: Let_def)
  next
    case False
    then show ?thesis using kp b by (auto simp: Let_def)
  qed
qed

text \<open>
  C10.  \<^verbatim>\<open>matchesFilter\<close> is not total: the reference branch is guarded by
  \<^verbatim>\<open>typeof actualValue === "object"\<close>, which holds of \<^verbatim>\<open>null\<close>, and by a test
  of the parameter against \<^verbatim>\<open>null\<close>, not of the field; for a record whose field
  is \<^verbatim>\<open>null\<close> and a defined scalar parameter for that field it reads
  \<^verbatim>\<open>null.id\<close> and throws.  It returns a boolean for every record that has no
  \<^verbatim>\<open>null\<close> field.
\<close>

theorem matchesFilter_null_field_throws:
  "matchesFilter [(''id'', JStr ''1''), (''type'', JNull)] [(''type'', PStr ''note'')]
     = Inl (TypeError ''Cannot read properties of null'')
   \<and> ((\<forall>k. obj_get e k \<noteq> JNull) \<longrightarrow> (\<exists>b. matchesFilter e ps = Inr b))
   \<and> (key \<notin> SPECIAL_PARAMS \<and> obj_get e key = JNull
        \<and> p \<noteq> PUndefined \<and> p \<noteq> PNull \<and> \<not> is_array p \<longrightarrow>
        matchesFilter e ((key, p) # rest) = Inl (TypeError ''Cannot read properties of null''))"
proof (intro conjI impI)
  show "matchesFilter [(''id'', JStr ''1''), (''type'', JNull)] [(''type'', PStr ''note'')]
     = Inl (TypeError ''Cannot read properties of null'')"
    by (simp add: special_params is_array_def obj_get_def typeof_object_def js_get_def)
next
  assume "\<forall>k. obj_get e k \<noteq> JNull"
  then show "\<exists>b. matchesFilter e ps = Inr b"
    by (rule matchesFilter_total_without_null)
next
  assume "key \<notin> SPECIAL_PARAMS \<and> obj_get e key = JNull
        \<and> p \<noteq> PUndefined \<and> p \<noteq> PNull \<and> \<not> is_array p"
  then show "matchesFilter e ((key, p) # rest) = Inl (TypeError ''Cannot read properties of null'')"
    by (simp add: typeof_object_def js_get_def)
qed

theorem matchesFilter_null_field_throws_witness:
  "(\<forall>k. obj_get [(''id'', JStr ''1''), (''type'', JStr ''note'')] k \<noteq> JNull)
   \<and> (\<exists>b. matchesFilter [(''id'', JStr ''1''), (''type'', JStr ''note'')] [(''type'', PStr ''note'')] = Inr b)
   \<and> ''type'' \<notin> SPECIAL_PARAMS
   \<and> obj_get [(''id'', JStr ''1''), (''type'', JNull)] ''type'' = JNull
   \<and> matchesFilter [(''id'', JStr ''1''), (''type'', JNull)] [(''type'', PBool True)]
       = Inl (TypeError ''Cannot read properties of null'')"
  using matchesFilter_null_field_throws
          [where e = "[(''id'', JStr ''1''), (''type'', JStr ''note'')]"
             and ps = "[(''type'', PStr ''note'')]"]
        matchesFilter_null_field_throws
          [where e = "[(''id'', JStr ''1''), (''type'', JNull)]" and key = "''type''"
             and p = "PBool True" and rest = "[]"]
  by (simp add: SPECIAL_PARAMS_def obj_get_def is_array_def)


section \<open>The entity normalizer\<close>

lemma map_of_replace:
  "map_of (map (\<lambda>(k', v'). if k' = k then (k', v) else (k', v')) ps) x =
     (if x = k \<and> k \<in> fst ` set ps then Some v else map_of ps x)"
proof (induction ps)
  case Nil
  show ?case by simp
next
  case (Cons p ps)
  obtain k' v' where p: "p = (k', v')" by (cases p)
  show ?case
  proof (cases "k' = k")
    case True
    then show ?thesis using p Cons.IH by simp
  next
    case False
    show ?thesis
    proof (cases "x = k")
      case True
      then show ?thesis using p Cons.IH \<open>k' \<noteq> k\<close> by simp
    next
      case False
      then show ?thesis using p Cons.IH \<open>k' \<noteq> k\<close> by simp
    qed
  qed
qed

lemma obj_set_present:
  assumes "k \<in> fst ` set ps"
  shows "map fst (obj_set ps k v) = map fst ps"
    and "map_of (obj_set ps k v) = (map_of ps)(k \<mapsto> v)"
proof -
  have eq: "obj_set ps k v = map (\<lambda>(k', v'). if k' = k then (k', v) else (k', v')) ps"
    using assms by (simp add: obj_set_def)
  show "map fst (obj_set ps k v) = map fst ps"
    unfolding eq by (rule map_fst_replace)
  show "map_of (obj_set ps k v) = (map_of ps)(k \<mapsto> v)"
    unfolding eq using assms by (auto simp: map_of_replace fun_eq_iff)
qed

lemma hobj_get_present: "hobj_get ps k \<noteq> HUndefined \<Longrightarrow> k \<in> fst ` set ps"
  by (auto simp: hobj_get_def split: option.splits dest!: map_of_SomeD intro: rev_image_eqI)

lemma hobj_get_ref: "hobj_get ps k = HRef r \<Longrightarrow> HRef r \<in> snd ` set ps"
  by (auto simp: hobj_get_def split: option.splits dest!: map_of_SomeD intro: rev_image_eqI)

lemma heap_closed_ref:
  assumes "heap_closed h" and "e < length h" and "h ! e = HObject ps" and "hobj_get ps k = HRef r"
  shows "r < length h"
proof -
  have "HRef r \<in> set (cell_values (h ! e))"
    using assms(3,4) hobj_get_ref by (simp add: cell_values_def)
  moreover have "h ! e \<in> set h" using assms(2) by simp
  ultimately show ?thesis
    using assms(1) by (fastforce simp: heap_closed_def list_all_iff)
qed

text \<open>One round of the loop, on a heap that extends \<open>h\<close> by the copy.\<close>

lemma normalize_step_inv:
  assumes closed: "heap_closed h" and e: "e < length h" and ent: "h ! e = HObject ps"
    and len: "length hc = Suc (length h)" and old: "take (length h) hc = h"
    and cell: "hc ! length h = HObject qs" and keys: "map fst qs = map fst ps"
    and vals: "\<forall>k. hobj_get qs k =
                 (if k \<in> D \<and> heap_has_id h (hobj_get ps k) then heap_id h (hobj_get ps k)
                  else hobj_get ps k)"
  shows "\<exists>qs'. length (normalize_step e (length h) hc f) = Suc (length h)
           \<and> take (length h) (normalize_step e (length h) hc f) = h
           \<and> normalize_step e (length h) hc f ! length h = HObject qs'
           \<and> map fst qs' = map fst ps
           \<and> (\<forall>k. hobj_get qs' k =
                 (if k \<in> insert f D \<and> heap_has_id h (hobj_get ps k) then heap_id h (hobj_get ps k)
                  else hobj_get ps k))"
proof -
  have nth_old: "\<And>a. a < length h \<Longrightarrow> hc ! a = h ! a"
    using old by (metis nth_take)
  have read: "heap_read hc e f = hobj_get ps f"
    using e len ent nth_old by (simp add: heap_read_def)
  have same_has: "heap_has_id hc (hobj_get ps f) = heap_has_id h (hobj_get ps f)"
  proof (cases "hobj_get ps f")
    case (HRef r)
    then have "r < length h" using heap_closed_ref [OF closed e ent] by blast
    then show ?thesis using HRef len nth_old by (simp add: heap_has_id_def)
  qed (simp_all add: heap_has_id_def)
  have same_id: "heap_id hc (hobj_get ps f) = heap_id h (hobj_get ps f)"
  proof (cases "hobj_get ps f")
    case (HRef r)
    then have "r < length h" using heap_closed_ref [OF closed e ent] by blast
    then show ?thesis using HRef len nth_old by (simp add: heap_id_def)
  qed (simp_all add: heap_id_def)
  show ?thesis
  proof (cases "heap_has_id h (hobj_get ps f)")
    case False
    then have "normalize_step e (length h) hc f = hc"
      by (simp add: normalize_step_def read same_has)
    then show ?thesis using len old cell keys vals False by auto
  next
    case True
    then have "hobj_get ps f \<noteq> HUndefined" by (auto simp: heap_has_id_def)
    then have "f \<in> fst ` set ps" by (rule hobj_get_present)
    then have fq: "f \<in> fst ` set qs" using keys by (metis list.set_map)
    let ?qs' = "obj_set qs f (heap_id h (hobj_get ps f))"
    have step: "normalize_step e (length h) hc f = hc[length h := HObject ?qs']"
      using True len cell by (simp add: normalize_step_def read same_has same_id heap_write_def)
    have "take (length h) (hc[length h := HObject ?qs']) = h"
      using old by simp
    moreover have "hc[length h := HObject ?qs'] ! length h = HObject ?qs'"
      using len by simp
    moreover have "map fst ?qs' = map fst ps"
      using obj_set_present(1) [OF fq] keys by simp
    moreover have "\<forall>k. hobj_get ?qs' k =
                 (if k \<in> insert f D \<and> heap_has_id h (hobj_get ps k) then heap_id h (hobj_get ps k)
                  else hobj_get ps k)"
      using vals True obj_set_present(2) [OF fq, of "heap_id h (hobj_get ps f)"]
      by (auto simp: hobj_get_def)
    ultimately show ?thesis using step len by auto
  qed
qed


lemma normalize_fold_inv:
  assumes closed: "heap_closed h" and e: "e < length h" and ent: "h ! e = HObject ps"
    and len: "length hc = Suc (length h)" and old: "take (length h) hc = h"
    and cell: "hc ! length h = HObject qs" and keys: "map fst qs = map fst ps"
    and vals: "\<forall>k. hobj_get qs k =
                 (if k \<in> D \<and> heap_has_id h (hobj_get ps k) then heap_id h (hobj_get ps k)
                  else hobj_get ps k)"
  shows "\<exists>qs'. length (foldl (normalize_step e (length h)) hc fs) = Suc (length h)
           \<and> take (length h) (foldl (normalize_step e (length h)) hc fs) = h
           \<and> foldl (normalize_step e (length h)) hc fs ! length h = HObject qs'
           \<and> map fst qs' = map fst ps
           \<and> (\<forall>k. hobj_get qs' k =
                 (if k \<in> D \<union> set fs \<and> heap_has_id h (hobj_get ps k) then heap_id h (hobj_get ps k)
                  else hobj_get ps k))"
  using len old cell keys vals
proof (induction fs arbitrary: hc qs D)
  case Nil
  then show ?case by auto
next
  case (Cons f fs)
  obtain qs1 where s1: "length (normalize_step e (length h) hc f) = Suc (length h)"
      "take (length h) (normalize_step e (length h) hc f) = h"
      "normalize_step e (length h) hc f ! length h = HObject qs1"
      "map fst qs1 = map fst ps"
      "\<forall>k. hobj_get qs1 k =
                 (if k \<in> insert f D \<and> heap_has_id h (hobj_get ps k) then heap_id h (hobj_get ps k)
                  else hobj_get ps k)"
    using normalize_step_inv [OF closed e ent Cons.prems] by blast
  have "D \<union> set (f # fs) = insert f D \<union> set fs" by auto
  then show ?case
    using Cons.IH [OF s1] by simp
qed

lemma normalize_heap_copy:
  assumes "has_fields kf" and "heap_closed h" and "e < length h" and "h ! e = HObject ps"
  shows "\<exists>h' qs. normalize_heap kf h e = Some (h', length h)
           \<and> length h' = Suc (length h) \<and> take (length h) h' = h
           \<and> h' ! length h = HObject qs \<and> map fst qs = map fst ps
           \<and> (\<forall>k. hobj_get qs k =
                 (if k \<in> set (fields_of kf) \<and> heap_has_id h (hobj_get ps k)
                  then heap_id h (hobj_get ps k) else hobj_get ps k))"
proof -
  have "\<exists>qs'. length (foldl (normalize_step e (length h)) (h @ [HObject ps]) (fields_of kf)) = Suc (length h)
           \<and> take (length h) (foldl (normalize_step e (length h)) (h @ [HObject ps]) (fields_of kf)) = h
           \<and> foldl (normalize_step e (length h)) (h @ [HObject ps]) (fields_of kf) ! length h = HObject qs'
           \<and> map fst qs' = map fst ps
           \<and> (\<forall>k. hobj_get qs' k =
                 (if k \<in> {} \<union> set (fields_of kf) \<and> heap_has_id h (hobj_get ps k)
                  then heap_id h (hobj_get ps k) else hobj_get ps k))"
    by (rule normalize_fold_inv [OF assms(2,3,4), where hc = "h @ [HObject ps]" and qs = ps and D = "{}"])
       simp_all
  moreover have "normalize_heap kf h e =
      Some (foldl (normalize_step e (length h)) (h @ [HObject ps]) (fields_of kf), length h)"
    using assms by (simp add: normalize_heap_def Let_def)
  ultimately show ?thesis by auto
qed

text \<open>The same loop on values.\<close>

lemma obj_get_present: "obj_get ps k \<noteq> JUndefined \<Longrightarrow> k \<in> fst ` set ps"
  by (auto simp: obj_get_def split: option.splits dest!: map_of_SomeD intro: rev_image_eqI)

lemma reference_present:
  "truthy (obj_get ps k) \<and> typeof_object (obj_get ps k) \<and> has_id (obj_get ps k) \<Longrightarrow> k \<in> fst ` set ps"
  by (rule obj_get_present) (auto simp: truthy_def)

lemma normalize_fold_values:
  assumes "map fst acc = map fst e"
    and "\<forall>k. obj_get acc k =
           (if k \<in> D \<and> truthy (obj_get e k) \<and> typeof_object (obj_get e k) \<and> has_id (obj_get e k)
            then js_prop (obj_get e k) ''id'' else obj_get e k)"
  shows "map fst (foldl (\<lambda>normalized field.
                    let v = obj_get e field in
                    if truthy v \<and> typeof_object v \<and> has_id v
                    then obj_set normalized field (js_prop v ''id'')
                    else normalized) acc fs) = map fst e
         \<and> (\<forall>k. obj_get (foldl (\<lambda>normalized field.
                    let v = obj_get e field in
                    if truthy v \<and> typeof_object v \<and> has_id v
                    then obj_set normalized field (js_prop v ''id'')
                    else normalized) acc fs) k =
           (if k \<in> D \<union> set fs \<and> truthy (obj_get e k) \<and> typeof_object (obj_get e k) \<and> has_id (obj_get e k)
            then js_prop (obj_get e k) ''id'' else obj_get e k))"
  using assms
proof (induction fs arbitrary: acc D)
  case Nil
  then show ?case by simp
next
  case (Cons f fs)
  let ?ref = "truthy (obj_get e f) \<and> typeof_object (obj_get e f) \<and> has_id (obj_get e f)"
  let ?acc = "if ?ref then obj_set acc f (js_prop (obj_get e f) ''id'') else acc"
  have keys: "map fst ?acc = map fst e"
  proof (cases ?ref)
    case True
    then have "f \<in> fst ` set acc"
      using reference_present Cons.prems(1) by (metis list.set_map)
    then have "map fst (obj_set acc f (js_prop (obj_get e f) ''id'')) = map fst acc"
      by (rule obj_set_present(1))
    then show ?thesis using True Cons.prems(1) by simp
  next
    case False
    then show ?thesis using Cons.prems(1) by auto
  qed
  have vals: "\<forall>k. obj_get ?acc k =
           (if k \<in> insert f D \<and> truthy (obj_get e k) \<and> typeof_object (obj_get e k) \<and> has_id (obj_get e k)
            then js_prop (obj_get e k) ''id'' else obj_get e k)"
  proof (cases ?ref)
    case True
    then have "f \<in> fst ` set acc"
      using reference_present Cons.prems(1) by (metis list.set_map)
    then have "map_of (obj_set acc f (js_prop (obj_get e f) ''id''))
                 = (map_of acc)(f \<mapsto> js_prop (obj_get e f) ''id'')"
      by (rule obj_set_present(2))
    then have "\<forall>k. obj_get (obj_set acc f (js_prop (obj_get e f) ''id'')) k
                 = (if k = f then js_prop (obj_get e f) ''id'' else obj_get acc k)"
      by (simp add: obj_get_def)
    then show ?thesis using True Cons.prems(2) by auto
  next
    case False
    then show ?thesis using Cons.prems(2) by auto
  qed
  have "D \<union> set (f # fs) = insert f D \<union> set fs" by auto
  then show ?case
    using Cons.IH [OF keys vals] by (simp add: Let_def)
qed

lemma normalize_values:
  "map fst (normalize kf e) = map fst e
   \<and> (\<forall>k. obj_get (normalize kf e) k =
         (if k \<in> set (fields_of kf) \<and> truthy (obj_get e k) \<and> typeof_object (obj_get e k) \<and> has_id (obj_get e k)
          then js_prop (obj_get e k) ''id'' else obj_get e k))"
proof (cases "has_fields kf")
  case False
  then have "fields_of kf = []"
    by (auto simp: has_fields_def fields_of_def split: option.splits)
  then show ?thesis using False by (simp add: normalize_def)
next
  case True
  have "map fst (foldl (\<lambda>normalized field.
                    let v = obj_get e field in
                    if truthy v \<and> typeof_object v \<and> has_id v
                    then obj_set normalized field (js_prop v ''id'')
                    else normalized) e (fields_of kf)) = map fst e
         \<and> (\<forall>k. obj_get (foldl (\<lambda>normalized field.
                    let v = obj_get e field in
                    if truthy v \<and> typeof_object v \<and> has_id v
                    then obj_set normalized field (js_prop v ''id'')
                    else normalized) e (fields_of kf)) k =
           (if k \<in> {} \<union> set (fields_of kf) \<and> truthy (obj_get e k) \<and> typeof_object (obj_get e k) \<and> has_id (obj_get e k)
            then js_prop (obj_get e k) ''id'' else obj_get e k))"
    by (rule normalize_fold_values [where acc = e and D = "{}"]) simp_all
  then show ?thesis using True by (simp add: normalize_def)
qed

text \<open>
  C6.  \<^verbatim>\<open>normalize\<close> does not mutate: on a closed heap every cell that
  existed before the call, the entity and the objects it refers to among
  them, is the same after it.  Without key fields the call allocates nothing
  and returns the entity itself.  With key fields it returns a new cell with
  the entity's property names in the entity's order, in which a declared key
  field that holds a reference to an object with an \<^verbatim>\<open>id\<close> has that object's
  \<^verbatim>\<open>id\<close> as its value and every other field has the value it has in the
  entity, a reference being the same reference.  Read on values, the
  normalized entity has the same property names in the same order and
  differs from the entity only at such key fields.
\<close>

theorem normalize_frame:
  "(\<not> has_fields kf \<longrightarrow> normalize_heap kf h e = Some (h, e) \<and> normalize kf ent = ent)
   \<and> (has_fields kf \<and> heap_closed h \<and> e < length h \<and> h ! e = HObject ps \<longrightarrow>
        (\<exists>h' qs. normalize_heap kf h e = Some (h', length h)
           \<and> length h' = Suc (length h) \<and> take (length h) h' = h
           \<and> h' ! length h = HObject qs \<and> map fst qs = map fst ps
           \<and> (\<forall>k. hobj_get qs k =
                 (if k \<in> set (fields_of kf) \<and> heap_has_id h (hobj_get ps k)
                  then heap_id h (hobj_get ps k) else hobj_get ps k))))
   \<and> map fst (normalize kf ent) = map fst ent
   \<and> (\<forall>k. obj_get (normalize kf ent) k =
         (if k \<in> set (fields_of kf) \<and> truthy (obj_get ent k) \<and> typeof_object (obj_get ent k)
              \<and> has_id (obj_get ent k)
          then js_prop (obj_get ent k) ''id'' else obj_get ent k))"
proof (intro conjI impI)
  assume "\<not> has_fields kf"
  then show "normalize_heap kf h e = Some (h, e)" "normalize kf ent = ent"
    by (simp_all add: normalize_heap_def normalize_def)
next
  assume "has_fields kf \<and> heap_closed h \<and> e < length h \<and> h ! e = HObject ps"
  then show "\<exists>h' qs. normalize_heap kf h e = Some (h', length h)
           \<and> length h' = Suc (length h) \<and> take (length h) h' = h
           \<and> h' ! length h = HObject qs \<and> map fst qs = map fst ps
           \<and> (\<forall>k. hobj_get qs k =
                 (if k \<in> set (fields_of kf) \<and> heap_has_id h (hobj_get ps k)
                  then heap_id h (hobj_get ps k) else hobj_get ps k))"
    using normalize_heap_copy by blast
next
  show "map fst (normalize kf ent) = map fst ent"
    using normalize_values by blast
  show "\<forall>k. obj_get (normalize kf ent) k =
         (if k \<in> set (fields_of kf) \<and> truthy (obj_get ent k) \<and> typeof_object (obj_get ent k)
              \<and> has_id (obj_get ent k)
          then js_prop (obj_get ent k) ''id'' else obj_get ent k)"
    using normalize_values by blast
qed


lemma tag_heap_closed: "heap_closed tag_heap"
  by (simp add: heap_closed_def tag_heap_def cell_values_def)

lemma tag_heap_entity:
  "tag_heap ! 0 = HObject [(''space'', HRef 1), (''name'', HStr ''urgent''), (''owner'', HRef 2)]"
  "length tag_heap = 3"
  by (simp_all add: tag_heap_def)

lemma tag_heap_normalized:
  "normalize_heap (Some [''space'', ''name'']) tag_heap 0 =
     Some (tag_heap @ [HObject [(''space'', HStr ''s1''), (''name'', HStr ''urgent''), (''owner'', HRef 2)]], 3)"
  by (simp add: normalize_heap_def has_fields_def fields_of_def tag_heap_def Let_def
        normalize_step_def heap_read_def heap_write_def heap_has_id_def heap_id_def hobj_get_def
        obj_set_def)

lemma tag_heap_unchanged: "normalize_heap None tag_heap 0 = Some (tag_heap, 0)"
  by (simp add: normalize_heap_def has_fields_def)

lemma tag_response_unchanged: "normalize None tag_response = tag_response"
  by (simp add: normalize_def has_fields_def)

theorem normalize_frame_witness:
  "has_fields (Some [''space'', ''name''])
   \<and> \<not> has_fields None
   \<and> heap_closed tag_heap
   \<and> tag_heap ! 0 = HObject [(''space'', HRef 1), (''name'', HStr ''urgent''), (''owner'', HRef 2)]
   \<and> normalize_heap (Some [''space'', ''name'']) tag_heap 0 =
       Some (tag_heap @ [HObject [(''space'', HStr ''s1''), (''name'', HStr ''urgent''), (''owner'', HRef 2)]], 3)
   \<and> normalize_heap None tag_heap 0 = Some (tag_heap, 0)
   \<and> normalize None tag_response = tag_response
   \<and> normalize tags_keyFields tag_response = tag_record"
  using normalize_frame
          [where kf = "Some [''space'', ''name'']" and h = tag_heap and e = 0
             and ps = "[(''space'', HRef 1), (''name'', HStr ''urgent''), (''owner'', HRef 2)]"
             and ent = tag_response]
        normalize_frame [where kf = None and h = tag_heap and e = 0 and ent = tag_response]
  by (simp add: tag_heap_closed tag_heap_entity tag_heap_normalized tag_heap_unchanged
        tag_response_unchanged tag_response_normalized has_fields_def)


section \<open>Serialized identifiers\<close>

lemma obj_set_fresh:
  "k \<notin> fst ` set ps \<Longrightarrow> array_index k = None \<Longrightarrow> obj_set ps k v = ps @ [(k, v)]"
  by (simp add: obj_set_def)

lemma build_in_order:
  assumes "distinct fs" and "set fs \<inter> fst ` set acc = {}" and "\<forall>f \<in> set fs. array_index f = None"
  shows "foldl (\<lambda>acc f. obj_set acc f (g f)) acc fs = acc @ map (\<lambda>f. (f, g f)) fs"
  using assms
proof (induction fs arbitrary: acc)
  case Nil
  then show ?case by simp
next
  case (Cons f fs)
  have fresh: "f \<notin> fst ` set acc" and idx: "array_index f = None"
    using Cons.prems by auto
  have step: "obj_set acc f (g f) = acc @ [(f, g f)]"
    using fresh idx by (rule obj_set_fresh)
  have "set fs \<inter> fst ` set (acc @ [(f, g f)]) = {}"
    using Cons.prems by auto
  then have "foldl (\<lambda>acc f. obj_set acc f (g f)) (acc @ [(f, g f)]) fs
               = (acc @ [(f, g f)]) @ map (\<lambda>f. (f, g f)) fs"
    using Cons.IH Cons.prems by simp
  then show ?case using step by simp
qed

lemma serializeId_object:
  assumes "has_fields kf"
  shows "serializeId (JObj a) kf =
           json_result (JObj (foldl (\<lambda>normalized field.
                                obj_set normalized field (extractPrimitiveValue (obj_get a field)))
                         [] (fields_of kf)))"
  using assms by (simp add: serializeId_def typeof_object_def js_prop_def)

lemma serializeId_depends_on_fields:
  assumes "has_fields kf"
    and "\<forall>f \<in> set (fields_of kf). extractPrimitiveValue (obj_get a f) = extractPrimitiveValue (obj_get b f)"
  shows "serializeId (JObj a) kf = serializeId (JObj b) kf"
proof -
  have "foldl (\<lambda>normalized field. obj_set normalized field (extractPrimitiveValue (obj_get a field)))
          [] (fields_of kf)
        = foldl (\<lambda>normalized field. obj_set normalized field (extractPrimitiveValue (obj_get b field)))
          [] (fields_of kf)"
    using assms(2) by (intro foldl_cong) simp_all
  then show ?thesis using assms(1) by (simp add: serializeId_object)
qed

lemma serializeId_in_order:
  assumes "has_fields kf" and "distinct (fields_of kf)"
    and "\<forall>f \<in> set (fields_of kf). array_index f = None"
  shows "serializeId (JObj a) kf =
           JStr (''{'' @ join '',''
                   (concat (map (\<lambda>f. json_member f (json_stringify (extractPrimitiveValue (obj_get a f))))
                              (fields_of kf))) @ ''}'')"
proof -
  have "foldl (\<lambda>normalized field. obj_set normalized field (extractPrimitiveValue (obj_get a field)))
          [] (fields_of kf)
        = [] @ map (\<lambda>f. (f, extractPrimitiveValue (obj_get a f))) (fields_of kf)"
    using assms(2,3) by (intro build_in_order) simp_all
  then show ?thesis
    using assms(1) by (simp add: serializeId_object json_result_def comp_def)
qed

lemma same_properties:
  assumes "distinct (map fst a)" and "distinct (map fst b)" and "set a = set b"
  shows "obj_get a k = obj_get b k"
proof -
  have "map_of a = map_of b"
    using assms by (simp add: map_of_inject_set)
  then show ?thesis by (simp add: obj_get_def)
qed

text \<open>
  C5, amended.  For an object identifier and declared key fields,
  \<^verbatim>\<open>serializeId\<close> reads only the declared fields, reduces each with
  \<^verbatim>\<open>extractPrimitiveValue\<close> and writes the JSON text of the object built from
  them.  So two identifiers with the same properties in any insertion order,
  and more generally two identifiers whose declared fields reduce to the same
  values, serialize to the same text.  When the declared names are distinct
  and none of them is an array index, the text lists the declared fields in
  declared order, leaving out a field whose value is \<^verbatim>\<open>undefined\<close>.  An
  identifier that is not an object is returned unchanged.
\<close>

theorem serializeId_deterministic:
  "(has_fields kf \<and> distinct (map fst a) \<and> distinct (map fst b) \<and> set a = set b \<longrightarrow>
      serializeId (JObj a) kf = serializeId (JObj b) kf)
   \<and> (has_fields kf
        \<and> (\<forall>f \<in> set (fields_of kf).
              extractPrimitiveValue (obj_get a f) = extractPrimitiveValue (obj_get b f)) \<longrightarrow>
        serializeId (JObj a) kf = serializeId (JObj b) kf)
   \<and> (has_fields kf \<and> distinct (fields_of kf)
        \<and> (\<forall>f \<in> set (fields_of kf). array_index f = None) \<longrightarrow>
        serializeId (JObj a) kf =
          JStr (''{'' @ join '',''
                  (concat (map (\<lambda>f. json_member f (json_stringify (extractPrimitiveValue (obj_get a f))))
                             (fields_of kf))) @ ''}''))
   \<and> (\<not> typeof_object ident \<or> ident = JNull \<longrightarrow> serializeId ident kf = ident)"
proof (intro conjI impI)
  assume h: "has_fields kf \<and> distinct (map fst a) \<and> distinct (map fst b) \<and> set a = set b"
  then have "\<forall>f \<in> set (fields_of kf).
              extractPrimitiveValue (obj_get a f) = extractPrimitiveValue (obj_get b f)"
    using same_properties [of a b] by simp
  then show "serializeId (JObj a) kf = serializeId (JObj b) kf"
    using h serializeId_depends_on_fields by blast
next
  assume "has_fields kf
        \<and> (\<forall>f \<in> set (fields_of kf).
              extractPrimitiveValue (obj_get a f) = extractPrimitiveValue (obj_get b f))"
  then show "serializeId (JObj a) kf = serializeId (JObj b) kf"
    using serializeId_depends_on_fields by blast
next
  assume "has_fields kf \<and> distinct (fields_of kf)
        \<and> (\<forall>f \<in> set (fields_of kf). array_index f = None)"
  then show "serializeId (JObj a) kf =
          JStr (''{'' @ join '',''
                  (concat (map (\<lambda>f. json_member f (json_stringify (extractPrimitiveValue (obj_get a f))))
                             (fields_of kf))) @ ''}'')"
    using serializeId_in_order by blast
next
  assume "\<not> typeof_object ident \<or> ident = JNull"
  then show "serializeId ident kf = ident"
    by (auto simp: serializeId_def)
qed


lemma array_index_values:
  "array_index ''1'' = Some 1" "array_index ''b'' = None"
  "array_index ''spaceId'' = None" "array_index ''tagName'' = None"
  "array_index ''space'' = None" "array_index ''name'' = None"
  by (simp_all add: array_index_def is_digit_def digits_value_def)

lemma index_order_object:
  "foldl (\<lambda>normalized field. obj_set normalized field
            (extractPrimitiveValue (obj_get [(''1'', JStr ''y''), (''b'', JStr ''x'')] field)))
     [] [''b'', ''1'']
   = [(''1'', JStr ''y''), (''b'', JStr ''x'')]"
  by (simp add: obj_set_def array_index_values extractPrimitiveValue_def obj_get_def truthy_def
        typeof_object_def)

lemma index_order_value:
  "serializeId (JObj [(''1'', JStr ''y''), (''b'', JStr ''x'')]) (Some [''b'', ''1''])
     = JStr (''{'' @ quote ''1'' @ '':'' @ quote ''y'' @ '','' @ quote ''b'' @ '':'' @ quote ''x'' @ ''}'')"
proof -
  have "has_fields (Some [''b'', ''1''])" by (simp add: has_fields_def)
  then have "serializeId (JObj [(''1'', JStr ''y''), (''b'', JStr ''x'')]) (Some [''b'', ''1''])
      = json_result (JObj [(''1'', JStr ''y''), (''b'', JStr ''x'')])"
    using index_order_object by (simp add: serializeId_object fields_of_def)
  then show ?thesis by (simp add: json_result_def json_member_def)
qed

lemma quote_values:
  "quote ''1'' = [CHR 0x22, CHR ''1'', CHR 0x22]"
  "quote ''b'' = [CHR 0x22, CHR ''b'', CHR 0x22]"
  by (simp_all add: quote_def quote_char_def Let_def)

text \<open>
  C5, as stated, fails where a declared key field is named like an array
  index: JavaScript enumerates such property names before the others, so for
  the key fields \<^verbatim>\<open>["b", "1"]\<close> the text has the key \<^verbatim>\<open>"1"\<close> before the key
  \<^verbatim>\<open>"b"\<close>, which is not the declared order.
\<close>

theorem serializeId_order_counterexample:
  "serializeId (JObj [(''1'', JStr ''y''), (''b'', JStr ''x'')]) (Some [''b'', ''1''])
     = JStr (''{'' @ quote ''1'' @ '':'' @ quote ''y'' @ '','' @ quote ''b'' @ '':'' @ quote ''x'' @ ''}'')
   \<and> serializeId (JObj [(''1'', JStr ''y''), (''b'', JStr ''x'')]) (Some [''b'', ''1''])
     \<noteq> JStr (''{'' @ quote ''b'' @ '':'' @ quote ''x'' @ '','' @ quote ''1'' @ '':'' @ quote ''y'' @ ''}'')"
  by (simp add: index_order_value quote_values)


lemma tags_fields_values:
  "has_fields tags_keyFields" "fields_of tags_keyFields = [''spaceId'', ''tagName'']"
  by (simp_all add: has_fields_def fields_of_def tags_keyFields_def)

lemma tag_values:
  "extractPrimitiveValue (JStr s) = JStr s"
  "extractPrimitiveValue (JObj [(''id'', JStr ''s1''), (''name'', JStr ''Work'')]) = JStr ''s1''"
  by (simp_all add: extractPrimitiveValue_def truthy_def typeof_object_def has_id_def js_prop_def
        obj_get_def)

theorem serializeId_deterministic_witness:
  "has_fields tags_keyFields
   \<and> distinct (fields_of tags_keyFields)
   \<and> serializeId (JObj [(''spaceId'', JStr ''s1''), (''tagName'', JStr ''t1'')]) tags_keyFields
       = serializeId (JObj [(''tagName'', JStr ''t1''), (''spaceId'', JStr ''s1'')]) tags_keyFields
   \<and> serializeId (JObj [(''tagName'', JStr ''t1''), (''spaceId'', JStr ''s1'')]) tags_keyFields
       = JStr (''{'' @ quote ''spaceId'' @ '':'' @ quote ''s1'' @ '','' @ quote ''tagName'' @ '':''
                 @ quote ''t1'' @ ''}'')
   \<and> serializeId (JObj [(''tagName'', JStr ''t1''),
                         (''spaceId'', JObj [(''id'', JStr ''s1''), (''name'', JStr ''Work'')])])
         tags_keyFields
       = serializeId (JObj [(''spaceId'', JStr ''s1''), (''tagName'', JStr ''t1'')]) tags_keyFields
   \<and> serializeId (JStr ''123'') None = JStr ''123''
   \<and> serializeId (JNum 7) tags_keyFields = JNum 7"
proof (intro conjI)
  show "has_fields tags_keyFields" "distinct (fields_of tags_keyFields)"
    by (simp_all add: tags_fields_values)
  show "serializeId (JObj [(''spaceId'', JStr ''s1''), (''tagName'', JStr ''t1'')]) tags_keyFields
       = serializeId (JObj [(''tagName'', JStr ''t1''), (''spaceId'', JStr ''s1'')]) tags_keyFields"
    using serializeId_deterministic
            [where kf = tags_keyFields
               and a = "[(''spaceId'', JStr ''s1''), (''tagName'', JStr ''t1'')]"
               and b = "[(''tagName'', JStr ''t1''), (''spaceId'', JStr ''s1'')]", THEN conjunct1]
    by (simp add: tags_fields_values insert_commute)
  show "serializeId (JObj [(''tagName'', JStr ''t1''), (''spaceId'', JStr ''s1'')]) tags_keyFields
       = JStr (''{'' @ quote ''spaceId'' @ '':'' @ quote ''s1'' @ '','' @ quote ''tagName'' @ '':''
                 @ quote ''t1'' @ ''}'')"
    using serializeId_deterministic
            [where kf = tags_keyFields
               and a = "[(''tagName'', JStr ''t1''), (''spaceId'', JStr ''s1'')]",
             THEN conjunct2, THEN conjunct2, THEN conjunct1]
    by (simp add: tags_fields_values array_index_values obj_get_def tag_values json_member_def)
  show "serializeId (JObj [(''tagName'', JStr ''t1''),
                         (''spaceId'', JObj [(''id'', JStr ''s1''), (''name'', JStr ''Work'')])])
         tags_keyFields
       = serializeId (JObj [(''spaceId'', JStr ''s1''), (''tagName'', JStr ''t1'')]) tags_keyFields"
    using serializeId_deterministic
            [where kf = tags_keyFields
               and a = "[(''tagName'', JStr ''t1''),
                         (''spaceId'', JObj [(''id'', JStr ''s1''), (''name'', JStr ''Work'')])]"
               and b = "[(''spaceId'', JStr ''s1''), (''tagName'', JStr ''t1'')]",
             THEN conjunct2, THEN conjunct1]
    by (simp add: tags_fields_values obj_get_def tag_values)
  show "serializeId (JStr ''123'') None = JStr ''123''"
    using serializeId_deterministic [where ident = "JStr ''123''" and kf = None]
    by (simp add: typeof_object_def)
  show "serializeId (JNum 7) tags_keyFields = JNum 7"
    using serializeId_deterministic [where ident = "JNum 7" and kf = tags_keyFields]
    by (simp add: typeof_object_def)
qed


end
